theory Spec2Isabelle
  imports Complex_Main
begin

section \<open>Data model (src/unnamed/part_000, the types imported by src/App.tsx)\<close>

datatype ConnectionStatus = DISCONNECTED | CONNECTING | CONNECTED | ERROR

datatype TalkMode = CONTINUOUS | PTT

datatype Sender = User | Model

text \<open>
  The interface \<open>Message\<close>. The field names \<open>id\<close> and \<open>text\<close> are taken in Isabelle,
  so they carry a prime.
\<close>

record Message =
  id' :: string
  sender :: Sender
  text' :: string
  timestamp :: string

text \<open>
  One reading of the wall clock: the decimal rendering of \<open>Date.now()\<close> and the result of
  \<open>new Date().toISOString()\<close>. A handler that builds several messages in one synchronous
  block reads the clock once here.
\<close>

record Stamp =
  dateNow :: string
  isoString :: string

subsection \<open>Inbound deliveries\<close>

text \<open>
  \<open>part.inlineData?.data\<close> of one part of \<open>modelTurn.parts\<close>: \<open>None\<close> when the part has no
  inline data. The payload is a base64 string; the empty string is falsy in the source's test.
\<close>

type_synonym Part = "string option"

text \<open>
  \<open>message.serverContent\<close>, with the fields the handler reads. A transcription is given by
  its \<open>text\<close>; an absent field is \<open>None\<close> (or \<open>False\<close> for the two flags).
\<close>

record ServerContent =
  outputTranscription :: "string option"
  inputTranscription :: "string option"
  turnComplete :: bool
  modelTurn_parts :: "Part list option"
  interrupted :: bool

type_synonym LiveServerMessage = "ServerContent option"

datatype DecodeError = DecodeError

subsection \<open>Observations of the outside world\<close>

text \<open>
  One call of \<open>source.start(t)\<close> on a freshly created buffer source. \<open>arrival\<close> is not
  program state: it records which delivery (counted from 0 in arrival order) and which part
  of that delivery the buffer was decoded from, so that arrival order can be spoken about.
\<close>

record Playback =
  arrival :: "nat \<times> nat"
  payload :: string
  startAt :: real
  duration :: real

type_synonym Frame = "real list"

text \<open>What was handed to \<open>session.sendRealtimeInput\<close>: a captured frame or a typed text.\<close>

datatype Outbound = Media Frame | Text string

datatype Call = SessionClose | ProcessorDisconnect | TracksStop

subsection \<open>A suspended \<open>onmessage\<close> handler\<close>

text \<open>
  \<open>onmessage\<close> is an async function whose only suspension point is
  \<open>await decodeAudioData(...)\<close> inside the loop over the parts. A handler suspended there is
  determined by the payload being decoded, the parts the loop has not reached yet, and the
  \<open>interrupted\<close> flag of its message (read after the loop). \<open>origin\<close> and \<open>position\<close>
  are the delivery number and part index of the payload, for \<open>arrival\<close>.
\<close>

record Task =
  origin :: nat
  position :: nat
  awaiting :: string
  remaining :: "Part list"
  then_interrupted :: bool

subsection \<open>The component state\<close>

text \<open>
  The \<open>useState\<close> cells and the \<open>useRef\<close> cells of \<open>App\<close>, followed by the observations.
  A source node is named by the index of its \<open>start\<close> call in \<open>started\<close>; \<open>sourcesRef\<close>
  is the JavaScript \<open>Set\<close> in insertion order. A ref to an opaque handle is \<open>True\<close> when
  non-null.

  \<open>closure_currentInput\<close> and \<open>closure_currentOutput\<close> are the constants \<open>currentInput\<close>
  and \<open>currentOutput\<close> of the render in which \<open>startConversation\<close> ran: the callbacks
  object passed to \<open>ai.live.connect\<close> is created inside that invocation and closes over
  that render's bindings, so \<open>onmessage\<close> reads these, not the state cells.
\<close>

record App =
  status :: ConnectionStatus
  messages :: "Message list"
  currentInput :: string
  currentOutput :: string
  isModelSpeaking :: bool
  talkMode :: TalkMode
  isPTTPressed :: bool
  textInput :: string
  nextStartTimeRef :: real
  sourcesRef :: "nat list"
  activeSessionRef :: bool
  scriptProcessorRef :: bool
  micStreamRef :: bool
  talkModeRef :: TalkMode
  isPTTPressedRef :: bool
  closure_currentInput :: string
  closure_currentOutput :: string
  pending :: "Task list"
  deliveries :: nat
  started :: "Playback list"
  stopped :: "nat list"
  sent :: "Outbound list"
  calls :: "Call list"

section \<open>Operations of src/App.tsx\<close>

subsection \<open>Effects on the refs (lines 41-44) and the talk-mode controls\<close>

definition sync_refs :: "App \<Rightarrow> App" where
  "sync_refs s = s\<lparr>talkModeRef := talkMode s, isPTTPressedRef := isPTTPressed s\<rparr>"

text \<open>
  A state setter called from a discrete user event, the re-render and the effect above are
  one step: React flushes them before the next event is dispatched.
\<close>

definition setTalkMode :: "TalkMode \<Rightarrow> App \<Rightarrow> App" where
  "setTalkMode m s = sync_refs (s\<lparr>talkMode := m\<rparr>)"

definition handlePTTDown :: "App \<Rightarrow> App" where
  "handlePTTDown s = sync_refs (s\<lparr>isPTTPressed := True\<rparr>)"

definition handlePTTUp :: "App \<Rightarrow> App" where
  "handlePTTUp s = sync_refs (s\<lparr>isPTTPressed := False\<rparr>)"

definition setTextInput :: "string \<Rightarrow> App \<Rightarrow> App" where
  "setTextInput t s = s\<lparr>textInput := t\<rparr>"

subsection \<open>Capture (lines 133-139)\<close>

definition onaudioprocess :: "Frame \<Rightarrow> App \<Rightarrow> App" where
  "onaudioprocess inputData s =
     (if talkModeRef s = CONTINUOUS \<or> isPTTPressedRef s
      then s\<lparr>sent := sent s @ [Media inputData]\<rparr>
      else s)"

subsection \<open>Stopping playback (lines 91-94 and 195-198)\<close>

text \<open>
  \<open>forEach(s => { try { s.stop(); } catch(e) {} })\<close>: \<open>stop\<close> is called on every member,
  whatever an earlier call did.
\<close>

definition interrupted_block :: "App \<Rightarrow> App" where
  "interrupted_block s =
     s\<lparr>stopped := stopped s @ sourcesRef s,
       sourcesRef := [],
       nextStartTimeRef := 0,
       isModelSpeaking := False\<rparr>"

definition stopConversation :: "App \<Rightarrow> App" where
  "stopConversation s =
     (let s1 = (if activeSessionRef s
                then s\<lparr>calls := calls s @ [SessionClose], activeSessionRef := False\<rparr>
                else s);
          s2 = (if scriptProcessorRef s1
                then s1\<lparr>calls := calls s1 @ [ProcessorDisconnect], scriptProcessorRef := False\<rparr>
                else s1);
          s3 = (if micStreamRef s2
                then s2\<lparr>calls := calls s2 @ [TracksStop], micStreamRef := False\<rparr>
                else s2)
      in (interrupted_block s3)\<lparr>status := DISCONNECTED\<rparr>)"

subsection \<open>Session start-up (lines 98-229), one definition per event\<close>

definition startConversation :: "App \<Rightarrow> App" where
  "startConversation s =
     s\<lparr>status := CONNECTING,
       closure_currentInput := currentInput s,
       closure_currentOutput := currentOutput s\<rparr>"

definition getUserMedia_resolved :: "App \<Rightarrow> App" where
  "getUserMedia_resolved s = s\<lparr>micStreamRef := True\<rparr>"

definition startConversation_catch :: "App \<Rightarrow> App" where
  "startConversation_catch s = s\<lparr>status := ERROR\<rparr>"

definition onopen :: "App \<Rightarrow> App" where
  "onopen s = s\<lparr>status := CONNECTED, scriptProcessorRef := True\<rparr>"

definition session_resolved :: "App \<Rightarrow> App" where
  "session_resolved s = s\<lparr>activeSessionRef := True\<rparr>"

definition onerror :: "App \<Rightarrow> App" where
  "onerror s = stopConversation (s\<lparr>status := ERROR\<rparr>)"

definition onclose :: "App \<Rightarrow> App" where
  "onclose s = stopConversation (s\<lparr>status := DISCONNECTED\<rparr>)"

subsection \<open>Inbound deliveries (lines 143-200)\<close>

text \<open>\<open>xs.slice(-n)\<close>: the last \<open>n\<close> elements, all of them when there are fewer.\<close>

definition slice_last :: "nat \<Rightarrow> 'a list \<Rightarrow> 'a list" where
  "slice_last n xs = drop (length xs - n) xs"

definition transcription :: "ServerContent \<Rightarrow> App \<Rightarrow> App" where
  "transcription sc s =
     (case outputTranscription sc of
        Some t \<Rightarrow> s\<lparr>currentOutput := currentOutput s @ t\<rparr>
      | None \<Rightarrow>
          (case inputTranscription sc of
             Some t \<Rightarrow> s\<lparr>currentInput := currentInput s @ t\<rparr>
           | None \<Rightarrow> s))"

definition turn_messages :: "Stamp \<Rightarrow> string \<Rightarrow> string \<Rightarrow> Message list" where
  "turn_messages clk uText mText =
     (if uText \<noteq> []
      then [\<lparr>id' = dateNow clk @ ''-u'', sender = User, text' = uText,
             timestamp = isoString clk\<rparr>]
      else []) @
     (if mText \<noteq> []
      then [\<lparr>id' = dateNow clk @ ''-m'', sender = Model, text' = mText,
             timestamp = isoString clk\<rparr>]
      else [])"

definition turn_complete :: "Stamp \<Rightarrow> App \<Rightarrow> App" where
  "turn_complete clk s =
     (let uText = closure_currentInput s;
          mText = closure_currentOutput s;
          s1 = (if uText \<noteq> [] \<or> mText \<noteq> []
                then s\<lparr>messages := slice_last 50 (messages s @ turn_messages clk uText mText)\<rparr>
                else s)
      in s1\<lparr>currentInput := [], currentOutput := []\<rparr>)"

text \<open>
  Lines 171-175, up to the \<open>await\<close>: the cursor is raised to the device time \<open>now\<close>
  \<^emph>\<open>before\<close> the decode starts.
\<close>

definition schedule_begin :: "real \<Rightarrow> App \<Rightarrow> App" where
  "schedule_begin now s =
     s\<lparr>isModelSpeaking := True,
       nextStartTimeRef := max (nextStartTimeRef s) now\<rparr>"

text \<open>
  Lines 178-189, after the \<open>await\<close> returned a buffer of duration \<open>d\<close>:
  \<open>source.start(nextStartTimeRef.current)\<close>, then the cursor advances, then the source joins
  the set.
\<close>

definition schedule_finish :: "nat \<times> nat \<Rightarrow> string \<Rightarrow> real \<Rightarrow> App \<Rightarrow> App" where
  "schedule_finish a b d s =
     s\<lparr>started := started s @
                   [\<lparr>arrival = a, payload = b, startAt = nextStartTimeRef s, duration = d\<rparr>],
       nextStartTimeRef := nextStartTimeRef s + d,
       sourcesRef := sourcesRef s @ [length (started s)]\<rparr>"

text \<open>
  The loop over the parts from part index \<open>i\<close> on, run until it suspends at the next
  \<open>await\<close> or ends; after the loop the \<open>interrupted\<close> flag is handled (lines 194-199).
\<close>

fun audio_loop :: "nat \<Rightarrow> nat \<Rightarrow> real \<Rightarrow> bool \<Rightarrow> Part list \<Rightarrow> App \<Rightarrow> App" where
  "audio_loop n i now intr [] s = (if intr then interrupted_block s else s)"
| "audio_loop n i now intr (Some (c # cs) # ps) s =
     (let s1 = schedule_begin now s
      in s1\<lparr>pending := pending s1 @
               [\<lparr>origin = n, position = i, awaiting = c # cs, remaining = ps,
                 then_interrupted = intr\<rparr>]\<rparr>)"
| "audio_loop n i now intr (Some [] # ps) s = audio_loop n (Suc i) now intr ps s"
| "audio_loop n i now intr (None # ps) s = audio_loop n (Suc i) now intr ps s"

text \<open>Lines 144-163: transcription accounting, then turn finalization.\<close>

definition transcript_part :: "Stamp \<Rightarrow> ServerContent \<Rightarrow> App \<Rightarrow> App" where
  "transcript_part clk sc s =
     (let s1 = transcription sc s
      in if turnComplete sc then turn_complete clk s1 else s1)"

text \<open>\<open>message.serverContent?.modelTurn?.parts\<close>, with no part when it is undefined.\<close>

definition parts_of :: "ServerContent \<Rightarrow> Part list" where
  "parts_of sc = (case modelTurn_parts sc of None \<Rightarrow> [] | Some ps \<Rightarrow> ps)"

definition onmessage :: "Stamp \<Rightarrow> real \<Rightarrow> LiveServerMessage \<Rightarrow> App \<Rightarrow> App" where
  "onmessage clk now message s =
     (case message of
        None \<Rightarrow> s\<lparr>deliveries := Suc (deliveries s)\<rparr>
      | Some sc \<Rightarrow>
          audio_loop (deliveries s) 0 now (interrupted sc) (parts_of sc)
            ((transcript_part clk sc s)\<lparr>deliveries := Suc (deliveries s)\<rparr>))"

text \<open>
  The decode awaited by the \<open>k\<close>-th suspended handler settles with \<open>res\<close> at device time
  \<open>now\<close>. A rejection leaves the async handler by exception: nothing catches it, and the
  rest of the handler does not run. Otherwise the handler schedules the buffer and goes on
  with its loop.
\<close>

definition decode_done :: "nat \<Rightarrow> DecodeError + real \<Rightarrow> real \<Rightarrow> App \<Rightarrow> App" where
  "decode_done k res now s =
     (if k < length (pending s)
      then (let t = pending s ! k;
                s1 = s\<lparr>pending := take k (pending s) @ drop (Suc k) (pending s)\<rparr>
            in (case res of
                  Inl e \<Rightarrow> s1
                | Inr d \<Rightarrow>
                    audio_loop (origin t) (Suc (position t)) now (then_interrupted t)
                      (remaining t)
                      (schedule_finish (origin t, position t) (awaiting t) d s1)))
      else s)"

text \<open>The \<open>ended\<close> listener of source \<open>n\<close> (lines 182-185).\<close>

definition source_ended :: "nat \<Rightarrow> App \<Rightarrow> App" where
  "source_ended n s =
     (let srcs = removeAll n (sourcesRef s)
      in s\<lparr>sourcesRef := srcs,
           isModelSpeaking := (if srcs = [] then False else isModelSpeaking s)\<rparr>)"

subsection \<open>Typed text (lines 231-245)\<close>

text \<open>
  \<open>String.prototype.trim\<close> strips white space and line terminators from both ends; on
  8-bit characters these are the code points 9 to 13, 32 and 160.
\<close>

definition isWhiteSpace :: "char \<Rightarrow> bool" where
  "isWhiteSpace c =
     (let n = (of_char c :: nat)
      in (9 \<le> n \<and> n \<le> 13) \<or> n = 32 \<or> n = 160)"

definition trim :: "string \<Rightarrow> string" where
  "trim t = rev (dropWhile isWhiteSpace (rev (dropWhile isWhiteSpace t)))"

definition handleSendText :: "Stamp \<Rightarrow> App \<Rightarrow> App" where
  "handleSendText clk s =
     (if trim (textInput s) = [] \<or> \<not> activeSessionRef s then s
      else (let textToSend = trim (textInput s)
            in s\<lparr>messages := messages s @
                     [\<lparr>id' = dateNow clk @ ''-tu'', sender = User, text' = textToSend,
                       timestamp = isoString clk\<rparr>],
                 sent := sent s @ [Text textToSend],
                 textInput := []\<rparr>))"

section \<open>The component before any event, and runs of events\<close>

text \<open>
  The initial values of the \<open>useState\<close> and \<open>useRef\<close> cells (lines 14-39); no session
  exists yet and nothing has been observed.
\<close>

definition initial :: App where
  "initial =
     \<lparr>status = DISCONNECTED, messages = [], currentInput = [], currentOutput = [],
      isModelSpeaking = False, talkMode = CONTINUOUS, isPTTPressed = False, textInput = [],
      nextStartTimeRef = 0, sourcesRef = [], activeSessionRef = False,
      scriptProcessorRef = False, micStreamRef = False, talkModeRef = CONTINUOUS,
      isPTTPressedRef = False, closure_currentInput = [], closure_currentOutput = [],
      pending = [], deliveries = 0, started = [], stopped = [], sent = [], calls = []\<rparr>"

text \<open>
  The engine is driven by discrete events, each handled to its next suspension point before
  the next one is dispatched.
\<close>

datatype Event =
    StartConversation
  | GetUserMediaResolved
  | StartFailed
  | Open
  | SessionResolved
  | Deliver Stamp real LiveServerMessage
  | DecodeDone nat "DecodeError + real" real
  | SourceEnded nat
  | ChannelError
  | ChannelClose
  | StopConversation
  | SetTalkMode TalkMode
  | PTTDown
  | PTTUp
  | AudioProcess Frame
  | SetTextInput string
  | SendText Stamp

fun step :: "Event \<Rightarrow> App \<Rightarrow> App" where
  "step StartConversation s = startConversation s"
| "step GetUserMediaResolved s = getUserMedia_resolved s"
| "step StartFailed s = startConversation_catch s"
| "step Open s = onopen s"
| "step SessionResolved s = session_resolved s"
| "step (Deliver clk now m) s = onmessage clk now m s"
| "step (DecodeDone k res now) s = decode_done k res now s"
| "step (SourceEnded n) s = source_ended n s"
| "step ChannelError s = onerror s"
| "step ChannelClose s = onclose s"
| "step StopConversation s = stopConversation s"
| "step (SetTalkMode m) s = setTalkMode m s"
| "step PTTDown s = handlePTTDown s"
| "step PTTUp s = handlePTTUp s"
| "step (AudioProcess f) s = onaudioprocess f s"
| "step (SetTextInput t) s = setTextInput t s"
| "step (SendText clk) s = handleSendText clk s"

fun exec :: "Event list \<Rightarrow> App \<Rightarrow> App" where
  "exec [] s = s"
| "exec (e # es) s = exec es (step e s)"

section \<open>Notions used to state the properties\<close>

text \<open>
  The payloads the loop over the parts decodes, in order: those that pass the test
  \<open>part.inlineData?.data\<close> of line 169.
\<close>

fun audio_chunks :: "Part list \<Rightarrow> string list" where
  "audio_chunks [] = []"
| "audio_chunks (Some (c # cs) # ps) = (c # cs) # audio_chunks ps"
| "audio_chunks (Some [] # ps) = audio_chunks ps"
| "audio_chunks (None # ps) = audio_chunks ps"

text \<open>The captured frames among what was sent on the channel, in sending order.\<close>

fun media :: "Outbound list \<Rightarrow> Frame list" where
  "media [] = []"
| "media (Media f # xs) = f # media xs"
| "media (Text t # xs) = media xs"

text \<open>
  The capture gate as the specification words it: in Continuous mode every frame is
  transmitted, in push-to-talk mode a frame is transmitted only while the button is pressed.
\<close>

definition shouldTransmit :: "TalkMode \<Rightarrow> bool \<Rightarrow> bool" where
  "shouldTransmit m pressed = (case m of CONTINUOUS \<Rightarrow> True | PTT \<Rightarrow> pressed)"

text \<open>
  The frames the specification expects on the channel for a run of events that starts in
  mode \<open>m\<close> with the button state \<open>p\<close>: each frame is judged with the mode and the
  button state in force when it is produced.
\<close>

fun expected_frames :: "TalkMode \<Rightarrow> bool \<Rightarrow> Event list \<Rightarrow> Frame list" where
  "expected_frames m p [] = []"
| "expected_frames m p (SetTalkMode m' # es) = expected_frames m' p es"
| "expected_frames m p (PTTDown # es) = expected_frames m True es"
| "expected_frames m p (PTTUp # es) = expected_frames m False es"
| "expected_frames m p (AudioProcess f # es) =
     (if shouldTransmit m p then f # expected_frames m p es else expected_frames m p es)"
| "expected_frames m p (e # es) = expected_frames m p es"

text \<open>The refs of lines 38-39 hold the values of their state cells.\<close>

definition synced :: "App \<Rightarrow> bool" where
  "synced s = (talkModeRef s = talkMode s \<and> isPTTPressedRef s = isPTTPressed s)"


text \<open>
  The start times the specification's \<open>schedule\<close> gives from cursor \<open>c\<close> when the device
  time is \<open>now\<close>: each buffer starts at the larger of the cursor and the device time, and
  moves the cursor to its end.
\<close>

fun starts :: "real \<Rightarrow> real \<Rightarrow> (real \<times> real) list \<Rightarrow> real list" where
  "starts c now [] = []"
| "starts c now ((d, t) # xs) = max c now # starts (max c now + d) t xs"

text \<open>
  Arrival order of audio chunks: by delivery, and within a delivery by part index.
\<close>

definition arrives_before :: "nat \<times> nat \<Rightarrow> nat \<times> nat \<Rightarrow> bool" where
  "arrives_before a b = (fst a < fst b \<or> (fst a = fst b \<and> snd a < snd b))"

text \<open>A log of start calls that follows arrival order throughout.\<close>

definition in_arrival_order :: "Playback list \<Rightarrow> bool" where
  "in_arrival_order st = sorted_wrt arrives_before (map arrival st)"

text \<open>A log of start calls that follows arrival order among the chunks of each delivery.\<close>

definition within_delivery :: "nat \<times> nat \<Rightarrow> nat \<times> nat \<Rightarrow> bool" where
  "within_delivery a b = (fst a = fst b \<longrightarrow> snd a < snd b)"

definition in_order_within_deliveries :: "Playback list \<Rightarrow> bool" where
  "in_order_within_deliveries st = sorted_wrt within_delivery (map arrival st)"

text \<open>The start calls made for chunks of delivery \<open>n\<close>.\<close>

definition started_of :: "nat \<Rightarrow> App \<Rightarrow> Playback list" where
  "started_of n s = filter (\<lambda>p. fst (arrival p) = n) (started s)"

text \<open>
  What every reachable state satisfies: the log is ordered within each delivery; no two
  suspended handlers belong to the same delivery; a suspended handler belongs to a delivery
  that has arrived and awaits a part that comes after every part of its delivery started so
  far; every start call belongs to a delivery that has arrived.
\<close>

definition wf3 :: "Playback list \<Rightarrow> Task list \<Rightarrow> nat \<Rightarrow> bool" where
  "wf3 st pd n =
     (in_order_within_deliveries st \<and> distinct (map origin pd) \<and>
      (\<forall>t \<in> set pd. origin t < n \<and>
         (\<forall>p \<in> set st. fst (arrival p) = origin t \<longrightarrow> snd (arrival p) < position t)) \<and>
      (\<forall>p \<in> set st. fst (arrival p) < n))"

definition wf :: "App \<Rightarrow> bool" where
  "wf s = wf3 (started s) (pending s) (deliveries s)"

text \<open>
  The parts a delivery carries: the field \<open>serverContent.modelTurn.parts\<close> of the message
  as it arrived, and no part when the field is absent.
\<close>

definition carried :: "LiveServerMessage \<Rightarrow> Part list" where
  "carried m =
     (case m of
        None \<Rightarrow> []
      | Some sc \<Rightarrow> (case modelTurn_parts sc of None \<Rightarrow> [] | Some ps \<Rightarrow> ps))"

text \<open>The parts carried by the deliveries of a run, one entry per delivery in arrival order.\<close>

fun delivered :: "Event list \<Rightarrow> Part list list" where
  "delivered [] = []"
| "delivered (Deliver clk now m # es) = carried m # delivered es"
| "delivered (e # es) = delivered es"

text \<open>
  The event is the successful completion of a decode that a suspended handler awaits.
\<close>

fun completes :: "Event \<Rightarrow> App \<Rightarrow> bool" where
  "completes (DecodeDone k (Inr d) now) s = (k < length (pending s))"
| "completes e s = False"

text \<open>
  Label \<open>a = (n, i)\<close> names a real chunk: the run had a delivery number \<open>n\<close>, that
  delivery carried a part at index \<open>i\<close>, and the inline data of that part is the payload
  \<open>b\<close>.
\<close>

definition carried_at :: "Part list list \<Rightarrow> nat \<times> nat \<Rightarrow> string \<Rightarrow> bool" where
  "carried_at dl a b =
     (fst a < length dl \<and> snd a < length (dl ! fst a) \<and> dl ! fst a ! snd a = Some b)"

text \<open>
  The labels in a state are tied to the deliveries \<open>dl\<close> received so far: every start
  call and every suspended handler is labelled with the delivery and the part its payload
  came from, and a suspended handler still has to visit exactly the parts after that one.
\<close>

definition tied :: "Part list list \<Rightarrow> App \<Rightarrow> bool" where
  "tied dl s =
     (deliveries s = length dl \<and>
      (\<forall>p \<in> set (started s). carried_at dl (arrival p) (payload p)) \<and>
      (\<forall>t \<in> set (pending s).
         carried_at dl (origin t, position t) (awaiting t) \<and>
         remaining t = drop (Suc (position t)) (dl ! origin t)))"

text \<open>
  The chunks started so far for each delivery received are the first audio chunks that
  delivery carried, in order; and what a suspended handler awaits and has still to visit is
  exactly the rest of them.
\<close>

definition progress :: "Part list list \<Rightarrow> App \<Rightarrow> bool" where
  "progress dl s =
     (\<forall>n \<in> {..<length dl}.
        take (length (started_of n s)) (audio_chunks (dl ! n)) =
          map payload (started_of n s) \<and>
        (\<forall>t \<in> set (pending s). origin t = n \<longrightarrow>
           audio_chunks (dl ! n) =
             map payload (started_of n s) @ awaiting t # audio_chunks (remaining t)))"

section \<open>Helper facts\<close>

lemma audio_loop_keeps:
  "currentInput (audio_loop n i now intr ps s) = currentInput s"
  "currentOutput (audio_loop n i now intr ps s) = currentOutput s"
  "messages (audio_loop n i now intr ps s) = messages s"
  "status (audio_loop n i now intr ps s) = status s"
  "sent (audio_loop n i now intr ps s) = sent s"
  "textInput (audio_loop n i now intr ps s) = textInput s"
  "started (audio_loop n i now intr ps s) = started s"
  "deliveries (audio_loop n i now intr ps s) = deliveries s"
  "talkMode (audio_loop n i now intr ps s) = talkMode s"
  "isPTTPressed (audio_loop n i now intr ps s) = isPTTPressed s"
  "talkModeRef (audio_loop n i now intr ps s) = talkModeRef s"
  "isPTTPressedRef (audio_loop n i now intr ps s) = isPTTPressedRef s"
  by (induction n i now intr ps s rule: audio_loop.induct;
      simp add: interrupted_block_def schedule_begin_def Let_def)+

lemma handleSendText_length:
  "trim (textInput s) \<noteq> [] \<Longrightarrow> activeSessionRef s \<Longrightarrow>
   length (messages (handleSendText clk s)) = Suc (length (messages s))"
  by (simp add: handleSendText_def Let_def)

lemma length_slice_last: "length (slice_last n xs) = min n (length xs)"
  by (simp add: slice_last_def)

lemma turn_complete_cap:
  "length (messages s) \<le> 50 \<Longrightarrow> length (messages (turn_complete clk s)) \<le> 50"
  by (simp add: turn_complete_def length_slice_last Let_def)

lemma turn_complete_reads_closure:
  "messages (turn_complete clk s) =
     (if closure_currentInput s = [] \<and> closure_currentOutput s = [] then messages s
      else slice_last 50 (messages s @
             turn_messages clk (closure_currentInput s) (closure_currentOutput s)))"
  by (simp add: turn_complete_def Let_def)

lemma transcript_part_keeps:
  "nextStartTimeRef (transcript_part clk sc s) = nextStartTimeRef s"
  "sourcesRef (transcript_part clk sc s) = sourcesRef s"
  "stopped (transcript_part clk sc s) = stopped s"
  "pending (transcript_part clk sc s) = pending s"
  "started (transcript_part clk sc s) = started s"
  "deliveries (transcript_part clk sc s) = deliveries s"
  "status (transcript_part clk sc s) = status s"
  "sent (transcript_part clk sc s) = sent s"
  "isModelSpeaking (transcript_part clk sc s) = isModelSpeaking s"
  "talkMode (transcript_part clk sc s) = talkMode s"
  "isPTTPressed (transcript_part clk sc s) = isPTTPressed s"
  "talkModeRef (transcript_part clk sc s) = talkModeRef s"
  "isPTTPressedRef (transcript_part clk sc s) = isPTTPressedRef s"
  by (simp_all add: transcript_part_def transcription_def turn_complete_def Let_def
      split: option.splits)

lemma onmessage_keeps:
  "sent (onmessage clk now m s) = sent s"
  "talkMode (onmessage clk now m s) = talkMode s"
  "isPTTPressed (onmessage clk now m s) = isPTTPressed s"
  "talkModeRef (onmessage clk now m s) = talkModeRef s"
  "isPTTPressedRef (onmessage clk now m s) = isPTTPressedRef s"
  "status (onmessage clk now m s) = status s"
  by (simp_all add: onmessage_def audio_loop_keeps transcript_part_keeps split: option.splits)

lemma decode_done_keeps:
  "sent (decode_done k res now s) = sent s"
  "talkMode (decode_done k res now s) = talkMode s"
  "isPTTPressed (decode_done k res now s) = isPTTPressed s"
  "talkModeRef (decode_done k res now s) = talkModeRef s"
  "isPTTPressedRef (decode_done k res now s) = isPTTPressedRef s"
  "status (decode_done k res now s) = status s"
  "messages (decode_done k res now s) = messages s"
  "currentInput (decode_done k res now s) = currentInput s"
  "currentOutput (decode_done k res now s) = currentOutput s"
  "deliveries (decode_done k res now s) = deliveries s"
  by (simp_all add: decode_done_def Let_def audio_loop_keeps schedule_finish_def
      split: sum.splits)

text \<open>The loop either runs to its end or suspends at its first audio chunk.\<close>

lemma audio_loop_no_audio:
  "audio_chunks ps = [] \<Longrightarrow>
   audio_loop n i now intr ps s = (if intr then interrupted_block s else s)"
  by (induction n i now intr ps s rule: audio_loop.induct) simp_all

lemma audio_loop_suspends:
  "audio_chunks ps = b # bs \<Longrightarrow>
   \<exists>t. audio_loop n i now intr ps s = (schedule_begin now s)\<lparr>pending := pending s @ [t]\<rparr> \<and>
       origin t = n \<and> i \<le> position t \<and> awaiting t = b \<and>
       audio_chunks (remaining t) = bs \<and> then_interrupted t = intr"
proof (induction n i now intr ps s rule: audio_loop.induct)
  case (1 n i now intr s)
  then show ?case by simp
next
  case (2 n i now intr c cs ps s)
  then have b: "b = c # cs" and bs: "bs = audio_chunks ps"
    by simp_all
  show ?case
    unfolding b bs
    by (rule exI [of _ "\<lparr>origin = n, position = i, awaiting = c # cs, remaining = ps,
                         then_interrupted = intr\<rparr>"])
       (simp add: Let_def schedule_begin_def)
next
  case (3 n i now intr ps s)
  then obtain t where
    "audio_loop n (Suc i) now intr ps s = (schedule_begin now s)\<lparr>pending := pending s @ [t]\<rparr> \<and>
     origin t = n \<and> Suc i \<le> position t \<and> awaiting t = b \<and>
     audio_chunks (remaining t) = bs \<and> then_interrupted t = intr"
    by auto
  then show ?case by (intro exI [of _ t]) simp
next
  case (4 n i now intr ps s)
  then obtain t where
    "audio_loop n (Suc i) now intr ps s = (schedule_begin now s)\<lparr>pending := pending s @ [t]\<rparr> \<and>
     origin t = n \<and> Suc i \<le> position t \<and> awaiting t = b \<and>
     audio_chunks (remaining t) = bs \<and> then_interrupted t = intr"
    by auto
  then show ?case by (intro exI [of _ t]) simp
qed

lemma media_append: "media (xs @ ys) = media xs @ media ys"
  by (induction xs rule: media.induct) simp_all

lemmas simple_handler_defs = startConversation_def getUserMedia_resolved_def
  startConversation_catch_def onopen_def session_resolved_def source_ended_def onerror_def
  onclose_def stopConversation_def interrupted_block_def setTalkMode_def handlePTTDown_def
  handlePTTUp_def sync_refs_def onaudioprocess_def setTextInput_def handleSendText_def

lemma step_gate:
  "synced s \<Longrightarrow>
   synced (step e s) \<and>
   media (sent (step e s)) @ expected_frames (talkMode (step e s)) (isPTTPressed (step e s)) es =
   media (sent s) @ expected_frames (talkMode s) (isPTTPressed s) (e # es)"
  by (cases e)
     (simp_all add: synced_def simple_handler_defs onmessage_keeps decode_done_keeps Let_def
        media_append shouldTransmit_def split: TalkMode.splits)





lemma last_starts_Cons:
  "xs \<noteq> [] \<Longrightarrow> last (starts c now ((d, t) # xs)) = last (starts (max c now + d) t xs)"
  by (cases xs) auto




lemma wf3_more: "wf3 st pd n \<Longrightarrow> wf3 st pd (Suc n)"
  by (auto simp: wf3_def less_Suc_eq)

lemma wf3_new_task: "wf3 st pd n \<Longrightarrow> origin t = n \<Longrightarrow> wf3 st (pd @ [t]) (Suc n)"
  by (fastforce simp: wf3_def less_Suc_eq)

lemma wf3_fail: "wf3 st (xs @ t # ys) n \<Longrightarrow> wf3 st (xs @ ys) n"
  by (auto simp: wf3_def)

lemma wf3_start_end:
  "wf3 st (xs @ t # ys) n \<Longrightarrow> arrival e = (origin t, position t) \<Longrightarrow>
   wf3 (st @ [e]) (xs @ ys) n"
  by (auto simp: wf3_def in_order_within_deliveries_def sorted_wrt_append within_delivery_def)

lemma wf3_start_next:
  "wf3 st (xs @ t # ys) n \<Longrightarrow> arrival e = (origin t, position t) \<Longrightarrow>
   origin t' = origin t \<Longrightarrow> position t < position t' \<Longrightarrow>
   wf3 (st @ [e]) (xs @ ys @ [t']) n"
  by (fastforce simp: wf3_def in_order_within_deliveries_def sorted_wrt_append within_delivery_def)

lemma split_at: "k < length pd \<Longrightarrow> pd = take k pd @ pd ! k # drop (Suc k) pd"
  by (rule id_take_nth_drop)

lemma wf_initial: "wf initial"
  by (simp add: wf_def wf3_def initial_def in_order_within_deliveries_def)

lemma interrupted_block_keeps:
  "started (interrupted_block s) = started s"
  "pending (interrupted_block s) = pending s"
  "deliveries (interrupted_block s) = deliveries s"
  by (simp_all add: interrupted_block_def)

lemma wf_onmessage: "wf s \<Longrightarrow> wf (onmessage clk now m s)"
proof (cases m)
  case None
  assume "wf s"
  then show ?thesis using None by (simp add: onmessage_def wf_def wf3_more)
next
  case (Some sc)
  assume w: "wf s"
  define s1 where "s1 = (transcript_part clk sc s)\<lparr>deliveries := Suc (deliveries s)\<rparr>"
  have s1: "started s1 = started s" "pending s1 = pending s" "deliveries s1 = Suc (deliveries s)"
    by (simp_all add: s1_def transcript_part_keeps)
  have om: "onmessage clk now m s = audio_loop (deliveries s) 0 now (interrupted sc) (parts_of sc) s1"
    by (simp add: onmessage_def Some s1_def)
  show ?thesis
  proof (cases "audio_chunks (parts_of sc)")
    case Nil
    then show ?thesis using w
      by (simp add: om audio_loop_no_audio wf_def s1 interrupted_block_keeps wf3_more)
  next
    case (Cons b bs)
    obtain t where t: "audio_loop (deliveries s) 0 now (interrupted sc) (parts_of sc) s1 =
          (schedule_begin now s1)\<lparr>pending := pending s1 @ [t]\<rparr>" "origin t = deliveries s"
      using audio_loop_suspends [OF Cons, of "deliveries s" 0 now "interrupted sc" s1] by auto
    show ?thesis using w
      by (simp add: om t wf_def s1 schedule_begin_def wf3_new_task)
  qed
qed

lemma wf_decode_done: "wf s \<Longrightarrow> wf (decode_done k res now s)"
proof (cases "k < length (pending s)")
  case False
  assume "wf s"
  then show ?thesis using False by (simp add: decode_done_def)
next
  case True
  assume w: "wf s"
  define t where "t = pending s ! k"
  define xs where "xs = take k (pending s)"
  define ys where "ys = drop (Suc k) (pending s)"
  have pd: "pending s = xs @ t # ys"
    unfolding xs_def ys_def t_def using True by (rule split_at)
  have w3: "wf3 (started s) (xs @ t # ys) (deliveries s)"
    using w by (simp add: wf_def pd)
  show ?thesis
  proof (cases res)
    case (Inl e)
    have "decode_done k res now s = s\<lparr>pending := xs @ ys\<rparr>"
      using True by (simp add: decode_done_def Inl Let_def xs_def ys_def)
    then show ?thesis using wf3_fail [OF w3] by (simp add: wf_def)
  next
    case (Inr d)
    define s2 where "s2 = schedule_finish (origin t, position t) (awaiting t) d (s\<lparr>pending := xs @ ys\<rparr>)"
    define e where "e = \<lparr>arrival = (origin t, position t), payload = awaiting t,
        startAt = nextStartTimeRef s, duration = d\<rparr>"
    have s2: "started s2 = started s @ [e]" "pending s2 = xs @ ys" "deliveries s2 = deliveries s"
      by (simp_all add: s2_def e_def schedule_finish_def)
    have e: "arrival e = (origin t, position t)" by (simp add: e_def)
    have dd: "decode_done k res now s =
        audio_loop (origin t) (Suc (position t)) now (then_interrupted t) (remaining t) s2"
      using True by (simp add: decode_done_def Inr Let_def xs_def ys_def t_def s2_def)
    show ?thesis
    proof (cases "audio_chunks (remaining t)")
      case Nil
      then show ?thesis using wf3_start_end [OF w3 e]
        by (simp add: dd audio_loop_no_audio wf_def s2 interrupted_block_keeps)
    next
      case (Cons b bs)
      obtain t' where t': "audio_loop (origin t) (Suc (position t)) now (then_interrupted t) (remaining t) s2 =
          (schedule_begin now s2)\<lparr>pending := pending s2 @ [t']\<rparr>" "origin t' = origin t"
          "Suc (position t) \<le> position t'"
        using audio_loop_suspends [OF Cons, of "origin t" "Suc (position t)" now "then_interrupted t" s2] by auto
      have "position t < position t'" using t'(3) by simp
      then show ?thesis using wf3_start_next [OF w3 e t'(2)]
        by (simp add: dd t'(1) wf_def s2 schedule_begin_def)
    qed
  qed
qed

lemma wf_step: "wf s \<Longrightarrow> wf (step e s)"
proof (cases e)
  case (Deliver clk now m)
  assume "wf s" then show ?thesis using Deliver by (simp add: wf_onmessage)
next
  case (DecodeDone k res now)
  assume "wf s" then show ?thesis using DecodeDone by (simp add: wf_decode_done)
qed (simp_all add: wf_def simple_handler_defs Let_def)

lemma wf_exec: "wf s \<Longrightarrow> wf (exec evs s)"
  by (induction evs arbitrary: s) (simp_all add: wf_step)

lemma decode_done_fail:
  "k < length (pending s) \<Longrightarrow>
   decode_done k (Inl e) now s = s\<lparr>pending := take k (pending s) @ drop (Suc k) (pending s)\<rparr>"
  by (simp add: decode_done_def Let_def)

lemma dead_onmessage:
  assumes "n < deliveries s" and "n \<notin> origin ` set (pending s)"
  shows "n < deliveries (onmessage clk now m s) \<and>
         n \<notin> origin ` set (pending (onmessage clk now m s)) \<and>
         started_of n (onmessage clk now m s) = started_of n s"
proof (cases m)
  case None
  then show ?thesis using assms by (simp add: onmessage_def started_of_def)
next
  case (Some sc)
  define s1 where "s1 = (transcript_part clk sc s)\<lparr>deliveries := Suc (deliveries s)\<rparr>"
  have s1: "started s1 = started s" "pending s1 = pending s" "deliveries s1 = Suc (deliveries s)"
    by (simp_all add: s1_def transcript_part_keeps)
  have om: "onmessage clk now m s = audio_loop (deliveries s) 0 now (interrupted sc) (parts_of sc) s1"
    by (simp add: onmessage_def Some s1_def)
  show ?thesis
  proof (cases "audio_chunks (parts_of sc)")
    case Nil
    then show ?thesis using assms
      by (simp add: om audio_loop_no_audio s1 interrupted_block_keeps started_of_def)
  next
    case (Cons b bs)
    obtain t where t: "audio_loop (deliveries s) 0 now (interrupted sc) (parts_of sc) s1 =
          (schedule_begin now s1)\<lparr>pending := pending s1 @ [t]\<rparr>" "origin t = deliveries s"
      using audio_loop_suspends [OF Cons, of "deliveries s" 0 now "interrupted sc" s1] by auto
    show ?thesis using assms
      by (auto simp add: om t s1 schedule_begin_def started_of_def)
  qed
qed

lemma dead_decode_done:
  assumes "n < deliveries s" and "n \<notin> origin ` set (pending s)"
  shows "n < deliveries (decode_done k res now s) \<and>
         n \<notin> origin ` set (pending (decode_done k res now s)) \<and>
         started_of n (decode_done k res now s) = started_of n s"
proof (cases "k < length (pending s)")
  case False
  then show ?thesis using assms by (simp add: decode_done_def)
next
  case True
  define t where "t = pending s ! k"
  define rest where "rest = take k (pending s) @ drop (Suc k) (pending s)"
  have tin: "t \<in> set (pending s)" using True by (simp add: t_def)
  have sub: "set rest \<subseteq> set (pending s)"
    unfolding rest_def by (auto dest: in_set_takeD in_set_dropD)
  have nt: "origin t \<noteq> n" using tin assms(2) by auto
  have nrest: "n \<notin> origin ` set rest" using sub assms(2) by auto
  show ?thesis
  proof (cases res)
    case (Inl e)
    then show ?thesis using True assms nrest
      by (simp add: decode_done_fail started_of_def rest_def)
  next
    case (Inr d)
    define s2 where "s2 = schedule_finish (origin t, position t) (awaiting t) d (s\<lparr>pending := rest\<rparr>)"
    have s2: "started_of n s2 = started_of n s" "pending s2 = rest" "deliveries s2 = deliveries s"
      using nt by (simp_all add: s2_def schedule_finish_def started_of_def)
    have dd: "decode_done k res now s =
        audio_loop (origin t) (Suc (position t)) now (then_interrupted t) (remaining t) s2"
      using True by (simp add: decode_done_def Inr Let_def rest_def t_def s2_def)
    show ?thesis
    proof (cases "audio_chunks (remaining t)")
      case Nil
      then show ?thesis using assms nrest s2
        by (simp add: dd audio_loop_no_audio interrupted_block_keeps started_of_def)
    next
      case (Cons b bs)
      obtain t' where t': "audio_loop (origin t) (Suc (position t)) now (then_interrupted t) (remaining t) s2 =
          (schedule_begin now s2)\<lparr>pending := pending s2 @ [t']\<rparr>" "origin t' = origin t"
        using audio_loop_suspends [OF Cons, of "origin t" "Suc (position t)" now "then_interrupted t" s2] by auto
      show ?thesis using assms nrest s2 nt
        by (auto simp add: dd t' schedule_begin_def started_of_def)
    qed
  qed
qed

lemma dead_step:
  assumes "n < deliveries s" and "n \<notin> origin ` set (pending s)"
  shows "n < deliveries (step e s) \<and> n \<notin> origin ` set (pending (step e s)) \<and>
         started_of n (step e s) = started_of n s"
proof (cases e)
  case (Deliver clk now m)
  then show ?thesis using dead_onmessage [OF assms] by simp
next
  case (DecodeDone k res now)
  then show ?thesis using dead_decode_done [OF assms] by simp
qed (use assms in \<open>simp_all add: started_of_def simple_handler_defs Let_def\<close>)

lemma dead_exec:
  "n < deliveries s \<Longrightarrow> n \<notin> origin ` set (pending s) \<Longrightarrow>
   started_of n (exec evs s) = started_of n s"
proof (induction evs arbitrary: s)
  case Nil
  then show ?case by simp
next
  case (Cons e es)
  have "started_of n (exec es (step e s)) = started_of n (step e s)"
    using Cons.IH dead_step [OF Cons.prems] by blast
  then show ?case using dead_step [OF Cons.prems, of e] by simp
qed

lemma wf_failed_is_dead:
  assumes "wf s" and "k < length (pending s)"
  shows "origin (pending s ! k) < deliveries s \<and>
         origin (pending s ! k) \<notin> origin ` set (take k (pending s) @ drop (Suc k) (pending s))"
proof -
  have pd: "pending s = take k (pending s) @ pending s ! k # drop (Suc k) (pending s)"
    using assms(2) by (rule split_at)
  have "distinct (map origin (take k (pending s) @ pending s ! k # drop (Suc k) (pending s)))"
    using assms(1) pd by (simp add: wf_def wf3_def)
  moreover have "origin (pending s ! k) < deliveries s"
    using assms by (simp add: wf_def wf3_def)
  ultimately show ?thesis by auto
qed

lemma audio_loop_suspends_at:
  "audio_chunks ps = b # bs \<Longrightarrow>
   \<exists>t j. audio_loop n i now intr ps s = (schedule_begin now s)\<lparr>pending := pending s @ [t]\<rparr> \<and>
       origin t = n \<and> position t = i + j \<and> j < length ps \<and> ps ! j = Some (awaiting t) \<and>
       remaining t = drop (Suc j) ps"
proof (induction n i now intr ps s rule: audio_loop.induct)
  case (1 n i now intr s)
  then show ?case by simp
next
  case (2 n i now intr c cs ps s)
  show ?case
    by (rule exI [of _ "\<lparr>origin = n, position = i, awaiting = c # cs, remaining = ps,
                         then_interrupted = intr\<rparr>"], rule exI [of _ 0])
       (simp add: Let_def schedule_begin_def)
next
  case (3 n i now intr ps s)
  then obtain t j where
    "audio_loop n (Suc i) now intr ps s = (schedule_begin now s)\<lparr>pending := pending s @ [t]\<rparr> \<and>
     origin t = n \<and> position t = Suc i + j \<and> j < length ps \<and> ps ! j = Some (awaiting t) \<and>
     remaining t = drop (Suc j) ps"
    by auto
  then show ?case
    by (intro exI [of _ t] exI [of _ "Suc j"]) simp
next
  case (4 n i now intr ps s)
  then obtain t j where
    "audio_loop n (Suc i) now intr ps s = (schedule_begin now s)\<lparr>pending := pending s @ [t]\<rparr> \<and>
     origin t = n \<and> position t = Suc i + j \<and> j < length ps \<and> ps ! j = Some (awaiting t) \<and>
     remaining t = drop (Suc j) ps"
    by auto
  then show ?case
    by (intro exI [of _ t] exI [of _ "Suc j"]) simp
qed

lemma carried_at_append: "carried_at dl a b \<Longrightarrow> carried_at (dl @ [ps]) a b"
  by (auto simp: carried_at_def nth_append)

lemma tied_more:
  "tied dl s \<Longrightarrow> started s' = started s \<Longrightarrow> pending s' = pending s \<Longrightarrow>
   deliveries s' = Suc (deliveries s) \<Longrightarrow> tied (dl @ [ps]) s'"
  by (auto simp: tied_def carried_at_append nth_append carried_at_def)

lemma tied_same:
  "tied dl s \<Longrightarrow> started s' = started s \<Longrightarrow> pending s' = pending s \<Longrightarrow>
   deliveries s' = deliveries s \<Longrightarrow> tied dl s'"
  by (simp add: tied_def)

lemma tied_new_task:
  assumes "tied dl s" "started s' = started s" "pending s' = pending s @ [t]"
    "deliveries s' = Suc (deliveries s)" "origin t = deliveries s" "position t = j"
    "j < length ps" "ps ! j = Some (awaiting t)" "remaining t = drop (Suc j) ps"
  shows "tied (dl @ [ps]) s'"
proof -
  have n: "deliveries s = length dl" using assms(1) by (simp add: tied_def)
  have old: "tied (dl @ [ps]) (s'\<lparr>pending := pending s\<rparr>)"
    using tied_more [OF assms(1), of "s'\<lparr>pending := pending s\<rparr>" ps] assms(2,4) by simp
  have new: "carried_at (dl @ [ps]) (origin t, position t) (awaiting t) \<and>
      remaining t = drop (Suc (position t)) ((dl @ [ps]) ! origin t)"
    using assms(5-9) n by (simp add: carried_at_def)
  show ?thesis
    using old new assms(3) by (auto simp: tied_def)
qed

lemma tied_onmessage: "tied dl s \<Longrightarrow> tied (dl @ [carried m]) (onmessage clk now m s)"
proof (cases m)
  case None
  assume "tied dl s"
  then show ?thesis
    using None by (intro tied_more [of dl s]) (simp_all add: onmessage_def)
next
  case (Some sc)
  assume w: "tied dl s"
  define s1 where "s1 = (transcript_part clk sc s)\<lparr>deliveries := Suc (deliveries s)\<rparr>"
  have s1: "started s1 = started s" "pending s1 = pending s" "deliveries s1 = Suc (deliveries s)"
    by (simp_all add: s1_def transcript_part_keeps)
  have om: "onmessage clk now m s =
      audio_loop (deliveries s) 0 now (interrupted sc) (parts_of sc) s1"
    by (simp add: onmessage_def Some s1_def)
  have cm: "carried m = parts_of sc"
    by (simp add: carried_def Some parts_of_def)
  show ?thesis
  proof (cases "audio_chunks (parts_of sc)")
    case Nil
    show ?thesis
      unfolding cm
      by (rule tied_more [OF w])
         (simp_all add: om audio_loop_no_audio [OF Nil] s1 interrupted_block_keeps)
  next
    case (Cons b bs)
    obtain t j where t:
      "audio_loop (deliveries s) 0 now (interrupted sc) (parts_of sc) s1 =
         (schedule_begin now s1)\<lparr>pending := pending s1 @ [t]\<rparr>"
      "origin t = deliveries s" "position t = 0 + j" "j < length (parts_of sc)"
      "parts_of sc ! j = Some (awaiting t)" "remaining t = drop (Suc j) (parts_of sc)"
      using audio_loop_suspends_at [OF Cons, of "deliveries s" 0 now "interrupted sc" s1]
      by (elim exE conjE)
    show ?thesis
      unfolding cm om t(1)
      by (rule tied_new_task [OF w _ _ _ t(2) _ t(4) t(5) t(6)])
         (simp_all add: s1 schedule_begin_def t(3))
  qed
qed

lemma tied_decode_done: "tied dl s \<Longrightarrow> tied dl (decode_done k res now s)"
proof (cases "k < length (pending s)")
  case False
  assume "tied dl s"
  then show ?thesis
    using False by (simp add: decode_done_def)
next
  case True
  assume w: "tied dl s"
  define t where "t = pending s ! k"
  define rest where "rest = take k (pending s) @ drop (Suc k) (pending s)"
  have tin: "t \<in> set (pending s)"
    using True by (simp add: t_def)
  have sub: "set rest \<subseteq> set (pending s)"
    unfolding rest_def by (auto dest: in_set_takeD in_set_dropD)
  have ct: "carried_at dl (origin t, position t) (awaiting t)"
    and rt: "remaining t = drop (Suc (position t)) (dl ! origin t)"
    using w tin by (auto simp: tied_def)
  have w1: "tied dl (s\<lparr>pending := rest\<rparr>)"
    using w sub by (auto simp: tied_def)
  show ?thesis
  proof (cases res)
    case (Inl e)
    have "decode_done k res now s = s\<lparr>pending := rest\<rparr>"
      using True by (simp add: decode_done_def Inl Let_def rest_def)
    then show ?thesis
      using w1 by simp
  next
    case (Inr d)
    define s2 where
      "s2 = schedule_finish (origin t, position t) (awaiting t) d (s\<lparr>pending := rest\<rparr>)"
    have w2: "tied dl s2"
      using w1 ct by (auto simp: tied_def s2_def schedule_finish_def)
    have dd: "decode_done k res now s =
        audio_loop (origin t) (Suc (position t)) now (then_interrupted t) (remaining t) s2"
      using True by (simp add: decode_done_def Inr Let_def rest_def t_def s2_def)
    show ?thesis
    proof (cases "audio_chunks (remaining t)")
      case Nil
      show ?thesis
        by (rule tied_same [OF w2])
           (simp_all add: dd audio_loop_no_audio [OF Nil] interrupted_block_keeps)
    next
      case (Cons b bs)
      obtain t' j where t':
        "audio_loop (origin t) (Suc (position t)) now (then_interrupted t) (remaining t) s2 =
           (schedule_begin now s2)\<lparr>pending := pending s2 @ [t']\<rparr>"
        "origin t' = origin t" "position t' = Suc (position t) + j"
        "j < length (remaining t)" "remaining t ! j = Some (awaiting t')"
        "remaining t' = drop (Suc j) (remaining t)"
        using audio_loop_suspends_at [OF Cons, of "origin t" "Suc (position t)" now
            "then_interrupted t" s2]
        by (elim exE conjE)
      have o: "origin t < length dl" and pl: "position t < length (dl ! origin t)"
        using ct by (simp_all add: carried_at_def)
      have j: "Suc (position t) + j < length (dl ! origin t)"
        using t'(4) rt by simp
      have a: "dl ! origin t ! (Suc (position t) + j) = Some (awaiting t')"
        using t'(5) rt j by simp
      have r: "remaining t' = drop (Suc (Suc (position t) + j)) (dl ! origin t)"
        using t'(6) rt by (simp add: add.commute)
      have new: "carried_at dl (origin t', position t') (awaiting t') \<and>
          remaining t' = drop (Suc (position t')) (dl ! origin t')"
        using o j a r by (simp add: carried_at_def t'(2) t'(3))
      show ?thesis
        unfolding dd t'(1) using w2 new
        by (auto simp: tied_def schedule_begin_def)
    qed
  qed
qed

lemma delivered_Cons: "delivered (e # es) = delivered [e] @ delivered es"
  by (cases e) simp_all

lemma tied_step: "tied dl s \<Longrightarrow> tied (dl @ delivered [e]) (step e s)"
proof (cases e)
  case (Deliver clk now m)
  assume "tied dl s"
  then show ?thesis
    using Deliver by (simp add: tied_onmessage)
next
  case (DecodeDone k res now)
  assume "tied dl s"
  then show ?thesis
    using DecodeDone by (simp add: tied_decode_done)
qed (simp_all add: tied_def simple_handler_defs Let_def)

lemma tied_exec: "tied dl s \<Longrightarrow> tied (dl @ delivered evs) (exec evs s)"
proof (induction evs arbitrary: dl s)
  case Nil
  then show ?case by simp
next
  case (Cons e es)
  have "tied ((dl @ delivered [e]) @ delivered es) (exec es (step e s))"
    by (rule Cons.IH [OF tied_step [OF Cons.prems]])
  then show ?case
    by (simp add: delivered_Cons [of e es])
qed

lemma tied_initial: "tied [] initial"
  by (simp add: tied_def initial_def)

lemma decode_done_starts_awaited:
  "k < length (pending s) \<Longrightarrow>
   started (decode_done k (Inr d) now s) =
     started s @ [\<lparr>arrival = (origin (pending s ! k), position (pending s ! k)),
                   payload = awaiting (pending s ! k), startAt = nextStartTimeRef s,
                   duration = d\<rparr>]"
  by (simp add: decode_done_def Let_def audio_loop_keeps schedule_finish_def)

lemma only_completions_start:
  "\<not> completes e s \<Longrightarrow> started (step e s) = started s"
proof (cases e)
  case (Deliver clk now m)
  then show ?thesis
    by (cases m) (simp_all add: onmessage_def audio_loop_keeps transcript_part_keeps)
next
  case (DecodeDone k res now)
  assume "\<not> completes e s"
  then show ?thesis
    using DecodeDone
    by (cases res) (simp_all add: decode_done_def Let_def)
qed (simp_all add: simple_handler_defs Let_def)

lemma progressI:
  assumes "\<And>n. n < length dl \<Longrightarrow> \<exists>ys. audio_chunks (dl ! n) = map payload (started_of n s) @ ys"
    and "\<And>n t. n < length dl \<Longrightarrow> t \<in> set (pending s) \<Longrightarrow> origin t = n \<Longrightarrow>
           audio_chunks (dl ! n) =
             map payload (started_of n s) @ awaiting t # audio_chunks (remaining t)"
  shows "progress dl s"
proof -
  have "take (length (started_of n s)) (audio_chunks (dl ! n)) = map payload (started_of n s)"
    if nl: "n < length dl" for n
  proof -
    obtain ys where "audio_chunks (dl ! n) = map payload (started_of n s) @ ys"
      using assms(1) [OF nl] by (elim exE)
    then show ?thesis by simp
  qed
  then show ?thesis
    using assms(2) by (simp add: progress_def)
qed

lemma progress_prefix:
  "progress dl s \<Longrightarrow> n < length dl \<Longrightarrow>
   \<exists>ys. audio_chunks (dl ! n) = map payload (started_of n s) @ ys"
proof -
  assume p: "progress dl s" and n: "n < length dl"
  have "take (length (started_of n s)) (audio_chunks (dl ! n)) = map payload (started_of n s)"
    using p n by (simp add: progress_def)
  then have "audio_chunks (dl ! n) =
      map payload (started_of n s) @ drop (length (started_of n s)) (audio_chunks (dl ! n))"
    using append_take_drop_id [of "length (started_of n s)" "audio_chunks (dl ! n)"]
    by simp
  then show ?thesis
    by (rule exI)
qed

lemma progress_pending:
  "progress dl s \<Longrightarrow> t \<in> set (pending s) \<Longrightarrow> origin t < length dl \<Longrightarrow>
   audio_chunks (dl ! origin t) =
     map payload (started_of (origin t) s) @ awaiting t # audio_chunks (remaining t)"
  by (simp add: progress_def)

lemma started_of_fresh:
  "wf s \<Longrightarrow> started_of (deliveries s) s = []"
  by (auto simp: wf_def wf3_def started_of_def filter_empty_conv)

lemma wf_origin_less: "wf s \<Longrightarrow> t \<in> set (pending s) \<Longrightarrow> origin t < deliveries s"
  by (simp add: wf_def wf3_def)

lemma progress_onmessage:
  assumes w: "wf s" and n: "deliveries s = length dl" and p: "progress dl s"
  shows "progress (dl @ [carried m]) (onmessage clk now m s)"
proof -
  define s' where "s' = onmessage clk now m s"
  have st: "started s' = started s"
    unfolding s'_def
    by (cases m) (simp_all add: onmessage_def audio_loop_keeps transcript_part_keeps)
  have so: "started_of k s' = started_of k s" for k
    by (simp add: started_of_def st)
  have pd: "pending s' = pending s \<or>
      (\<exists>t. pending s' = pending s @ [t] \<and> origin t = deliveries s \<and>
           audio_chunks (carried m) = awaiting t # audio_chunks (remaining t))"
  proof (cases m)
    case None
    then show ?thesis by (simp add: s'_def onmessage_def)
  next
    case (Some sc)
    define s1 where "s1 = (transcript_part clk sc s)\<lparr>deliveries := Suc (deliveries s)\<rparr>"
    have s1: "pending s1 = pending s"
      by (simp add: s1_def transcript_part_keeps)
    have om: "s' = audio_loop (deliveries s) 0 now (interrupted sc) (parts_of sc) s1"
      by (simp add: s'_def onmessage_def Some s1_def)
    have cm: "carried m = parts_of sc"
      by (simp add: carried_def Some parts_of_def)
    show ?thesis
    proof (cases "audio_chunks (parts_of sc)")
      case Nil
      then show ?thesis
        by (simp add: om audio_loop_no_audio s1 interrupted_block_keeps)
    next
      case (Cons b bs)
      obtain t where t:
        "audio_loop (deliveries s) 0 now (interrupted sc) (parts_of sc) s1 =
           (schedule_begin now s1)\<lparr>pending := pending s1 @ [t]\<rparr>"
        "origin t = deliveries s" "awaiting t = b" "audio_chunks (remaining t) = bs"
        using audio_loop_suspends [OF Cons, of "deliveries s" 0 now "interrupted sc" s1]
        by auto
      have "pending s' = pending s @ [t]"
        unfolding om t(1) by (simp add: s1 schedule_begin_def)
      then show ?thesis
        using t(2,3,4) Cons cm by auto
    qed
  qed
  have old: "t \<in> set (pending s) \<Longrightarrow> origin t < length dl" for t
    using wf_origin_less [OF w] n by auto
  show ?thesis
    unfolding s'_def [symmetric]
  proof (rule progressI)
    fix k
    assume k: "k < length (dl @ [carried m])"
    show "\<exists>ys. audio_chunks ((dl @ [carried m]) ! k) = map payload (started_of k s') @ ys"
    proof (cases "k < length dl")
      case True
      then show ?thesis
        using progress_prefix [OF p True] by (simp add: so nth_append)
    next
      case False
      then have "k = deliveries s"
        using k n by simp
      then show ?thesis
        using started_of_fresh [OF w] by (simp add: so)
    qed
  next
    fix k t
    assume k: "k < length (dl @ [carried m])" and t: "t \<in> set (pending s')"
      and o: "origin t = k"
    show "audio_chunks ((dl @ [carried m]) ! k) =
        map payload (started_of k s') @ awaiting t # audio_chunks (remaining t)"
    proof (cases "t \<in> set (pending s)")
      case True
      then have "origin t < length dl"
        by (rule old)
      then show ?thesis
        using progress_pending [OF p True] o by (simp add: so nth_append)
    next
      case False
      then have "origin t = deliveries s \<and>
          audio_chunks (carried m) = awaiting t # audio_chunks (remaining t)"
        using pd t by auto
      then show ?thesis
        using o n started_of_fresh [OF w] by (simp add: so)
    qed
  qed
qed

lemma progress_decode_done:
  assumes w: "wf s" and n: "deliveries s = length dl" and p: "progress dl s"
  shows "progress dl (decode_done k res now s)"
proof (cases "k < length (pending s)")
  case False
  then show ?thesis
    using p by (simp add: decode_done_def)
next
  case True
  define t where "t = pending s ! k"
  define rest where "rest = take k (pending s) @ drop (Suc k) (pending s)"
  have tin: "t \<in> set (pending s)"
    using True by (simp add: t_def)
  have sub: "set rest \<subseteq> set (pending s)"
    unfolding rest_def by (auto dest: in_set_takeD in_set_dropD)
  have ot: "origin t < length dl"
    using wf_origin_less [OF w tin] n by simp
  have nr: "origin t \<notin> origin ` set rest"
    using wf_failed_is_dead [OF w True] by (simp add: t_def rest_def)
  have ch: "audio_chunks (dl ! origin t) =
      map payload (started_of (origin t) s) @ awaiting t # audio_chunks (remaining t)"
    by (rule progress_pending [OF p tin ot])
  show ?thesis
  proof (cases res)
    case (Inl e)
    have dd: "decode_done k res now s = s\<lparr>pending := rest\<rparr>"
      using True by (simp add: decode_done_def Inl Let_def rest_def)
    show ?thesis
      unfolding dd
    proof (rule progressI)
      fix m
      assume "m < length dl"
      then show "\<exists>ys. audio_chunks (dl ! m) = map payload (started_of m (s\<lparr>pending := rest\<rparr>)) @ ys"
        using progress_prefix [OF p] by (simp add: started_of_def)
    next
      fix m u
      assume "m < length dl" "u \<in> set (pending (s\<lparr>pending := rest\<rparr>))" "origin u = m"
      then show "audio_chunks (dl ! m) =
          map payload (started_of m (s\<lparr>pending := rest\<rparr>)) @ awaiting u #
          audio_chunks (remaining u)"
        using progress_pending [OF p, of u] sub by (auto simp: started_of_def)
    qed
  next
    case (Inr d)
    define s2 where
      "s2 = schedule_finish (origin t, position t) (awaiting t) d (s\<lparr>pending := rest\<rparr>)"
    have dd: "decode_done k res now s =
        audio_loop (origin t) (Suc (position t)) now (then_interrupted t) (remaining t) s2"
      using True by (simp add: decode_done_def Inr Let_def rest_def t_def s2_def)
    define s' where "s' = decode_done k res now s"
    have st: "started s' = started s2"
      by (simp add: s'_def dd audio_loop_keeps)
    have so_t: "map payload (started_of (origin t) s') =
        map payload (started_of (origin t) s) @ [awaiting t]"
      by (simp add: started_of_def st s2_def schedule_finish_def)
    have so_o: "started_of m s' = started_of m s" if "m \<noteq> origin t" for m
      using that by (simp add: started_of_def st s2_def schedule_finish_def)
    have pd: "pending s' = rest \<or>
        (\<exists>t'. pending s' = rest @ [t'] \<and> origin t' = origin t \<and>
             audio_chunks (remaining t) = awaiting t' # audio_chunks (remaining t'))"
    proof (cases "audio_chunks (remaining t)")
      case Nil
      then show ?thesis
        by (simp add: s'_def dd audio_loop_no_audio interrupted_block_keeps s2_def
            schedule_finish_def)
    next
      case (Cons b bs)
      obtain t' where t':
        "audio_loop (origin t) (Suc (position t)) now (then_interrupted t) (remaining t) s2 =
           (schedule_begin now s2)\<lparr>pending := pending s2 @ [t']\<rparr>"
        "origin t' = origin t" "awaiting t' = b" "audio_chunks (remaining t') = bs"
        using audio_loop_suspends [OF Cons, of "origin t" "Suc (position t)" now
            "then_interrupted t" s2]
        by auto
      have "pending s' = rest @ [t']"
        unfolding s'_def dd t'(1) by (simp add: schedule_begin_def s2_def schedule_finish_def)
      then show ?thesis
        using t'(2,3,4) Cons by auto
    qed
    show ?thesis
      unfolding s'_def [symmetric]
    proof (rule progressI)
      fix m
      assume m: "m < length dl"
      show "\<exists>ys. audio_chunks (dl ! m) = map payload (started_of m s') @ ys"
      proof (cases "m = origin t")
        case True
        then show ?thesis
          using ch by (simp add: so_t)
      next
        case False
        then show ?thesis
          using progress_prefix [OF p m] by (simp add: so_o)
      qed
    next
      fix m u
      assume m: "m < length dl" and u: "u \<in> set (pending s')" and o: "origin u = m"
      show "audio_chunks (dl ! m) =
          map payload (started_of m s') @ awaiting u # audio_chunks (remaining u)"
      proof (cases "u \<in> set rest")
        case True
        have ne: "m \<noteq> origin t"
          using nr o True by (metis imageI)
        have "u \<in> set (pending s)"
          using True sub by auto
        then show ?thesis
          using progress_pending [OF p, of u] o m by (simp add: so_o [OF ne])
      next
        case False
        then have "origin u = origin t \<and>
            audio_chunks (remaining t) = awaiting u # audio_chunks (remaining u)"
          using pd u by auto
        then show ?thesis
          using ch o by (simp add: so_t)
      qed
    qed
  qed
qed

lemma tied_deliveries: "tied dl s \<Longrightarrow> deliveries s = length dl"
  by (simp add: tied_def)

lemma progress_same:
  "progress dl s \<Longrightarrow> started s' = started s \<Longrightarrow> pending s' = pending s \<Longrightarrow>
   progress dl s'"
  by (simp add: progress_def started_of_def)

lemma progress_step:
  assumes "wf s" "tied dl s" "progress dl s"
  shows "progress (dl @ delivered [e]) (step e s)"
proof (cases e)
  case (Deliver clk now m)
  then show ?thesis
    using progress_onmessage [OF assms(1) tied_deliveries [OF assms(2)] assms(3)] by simp
next
  case (DecodeDone k res now)
  then show ?thesis
    using progress_decode_done [OF assms(1) tied_deliveries [OF assms(2)] assms(3)] by simp
qed (simp_all, (rule progress_same [OF assms(3)]; simp add: simple_handler_defs Let_def)+)

lemma progress_exec:
  "wf s \<Longrightarrow> tied dl s \<Longrightarrow> progress dl s \<Longrightarrow> progress (dl @ delivered evs) (exec evs s)"
proof (induction evs arbitrary: dl s)
  case Nil
  then show ?case by simp
next
  case (Cons e es)
  have "progress ((dl @ delivered [e]) @ delivered es) (exec es (step e s))"
    by (rule Cons.IH [OF wf_step [OF Cons.prems(1)] tied_step [OF Cons.prems(2)]
          progress_step [OF Cons.prems]])
  then show ?case
    by (simp add: delivered_Cons [of e es])
qed

lemma progress_initial: "progress [] initial"
  by (simp add: progress_def)

lemma played_prefix:
  "n < length (delivered evs) \<Longrightarrow>
   take (length (started_of n (exec evs initial))) (audio_chunks (delivered evs ! n)) =
     map payload (started_of n (exec evs initial))"
  using progress_exec [OF wf_initial tied_initial progress_initial, of evs]
  by (simp add: progress_def)

section \<open>The claims\<close>

text \<open>
  C3 (turn finalization). The claim asks that a turn-complete signal appends one message
  per non-empty accumulator, carrying the text accumulated in that turn. The handler reads
  the constants of the render that started the session instead
  (\<open>turn_complete_reads_closure\<close>). On a fresh component: start a session, receive the
  input fragment "hello", then the output fragment "hi there", then the turn-complete
  signal. Both accumulators held the text before the signal; afterwards the history is still
  empty and both accumulators are cleared, so the turn is lost.
\<close>

theorem turn_complete_loses_turn:
  "currentInput (exec [StartConversation, GetUserMediaResolved, Open, SessionResolved,
       Deliver \<lparr>dateNow = ''1700000000000'', isoString = ''2023-11-14T22:13:20.000Z''\<rparr> 0
         (Some \<lparr>outputTranscription = None, inputTranscription = Some ''hello'',
                turnComplete = False, modelTurn_parts = None, interrupted = False\<rparr>),
       Deliver \<lparr>dateNow = ''1700000000500'', isoString = ''2023-11-14T22:13:20.500Z''\<rparr> 0
         (Some \<lparr>outputTranscription = Some ''hi there'', inputTranscription = None,
                turnComplete = False, modelTurn_parts = None, interrupted = False\<rparr>)]
     initial) = ''hello'' \<and>
   currentOutput (exec [StartConversation, GetUserMediaResolved, Open, SessionResolved,
       Deliver \<lparr>dateNow = ''1700000000000'', isoString = ''2023-11-14T22:13:20.000Z''\<rparr> 0
         (Some \<lparr>outputTranscription = None, inputTranscription = Some ''hello'',
                turnComplete = False, modelTurn_parts = None, interrupted = False\<rparr>),
       Deliver \<lparr>dateNow = ''1700000000500'', isoString = ''2023-11-14T22:13:20.500Z''\<rparr> 0
         (Some \<lparr>outputTranscription = Some ''hi there'', inputTranscription = None,
                turnComplete = False, modelTurn_parts = None, interrupted = False\<rparr>)]
     initial) = ''hi there'' \<and>
   messages (exec [StartConversation, GetUserMediaResolved, Open, SessionResolved,
       Deliver \<lparr>dateNow = ''1700000000000'', isoString = ''2023-11-14T22:13:20.000Z''\<rparr> 0
         (Some \<lparr>outputTranscription = None, inputTranscription = Some ''hello'',
                turnComplete = False, modelTurn_parts = None, interrupted = False\<rparr>),
       Deliver \<lparr>dateNow = ''1700000000500'', isoString = ''2023-11-14T22:13:20.500Z''\<rparr> 0
         (Some \<lparr>outputTranscription = Some ''hi there'', inputTranscription = None,
                turnComplete = False, modelTurn_parts = None, interrupted = False\<rparr>),
       Deliver \<lparr>dateNow = ''1700000001000'', isoString = ''2023-11-14T22:13:21.000Z''\<rparr> 0
         (Some \<lparr>outputTranscription = None, inputTranscription = None,
                turnComplete = True, modelTurn_parts = None, interrupted = False\<rparr>)]
     initial) = [] \<and>
   currentInput (exec [StartConversation, GetUserMediaResolved, Open, SessionResolved,
       Deliver \<lparr>dateNow = ''1700000000000'', isoString = ''2023-11-14T22:13:20.000Z''\<rparr> 0
         (Some \<lparr>outputTranscription = None, inputTranscription = Some ''hello'',
                turnComplete = False, modelTurn_parts = None, interrupted = False\<rparr>),
       Deliver \<lparr>dateNow = ''1700000000500'', isoString = ''2023-11-14T22:13:20.500Z''\<rparr> 0
         (Some \<lparr>outputTranscription = Some ''hi there'', inputTranscription = None,
                turnComplete = False, modelTurn_parts = None, interrupted = False\<rparr>),
       Deliver \<lparr>dateNow = ''1700000001000'', isoString = ''2023-11-14T22:13:21.000Z''\<rparr> 0
         (Some \<lparr>outputTranscription = None, inputTranscription = None,
                turnComplete = True, modelTurn_parts = None, interrupted = False\<rparr>)]
     initial) = []"
  by (simp add: initial_def startConversation_def getUserMedia_resolved_def onopen_def
      session_resolved_def onmessage_def transcript_part_def parts_of_def
      transcription_def turn_complete_def turn_messages_def interrupted_block_def Let_def)

text \<open>
  C4 (history cap). Turn finalization keeps at most the last 50 entries
  (\<open>turn_complete_cap\<close>), but the text submission appends without cutting: with 50
  entries in the history, an open session and the typed text "hi", the history holds 51
  entries afterwards, the oldest one still first.
\<close>

theorem handleSendText_exceeds_cap:
  "length (messages (handleSendText \<lparr>dateNow = ''1700000000000'', isoString = ''t''\<rparr>
      (initial\<lparr>messages := replicate 50 \<lparr>id' = ''0-u'', sender = User, text' = ''old'',
                                          timestamp = ''t0''\<rparr>,
               activeSessionRef := True, textInput := ''hi''\<rparr>))) = 51 \<and>
   hd (messages (handleSendText \<lparr>dateNow = ''1700000000000'', isoString = ''t''\<rparr>
      (initial\<lparr>messages := replicate 50 \<lparr>id' = ''0-u'', sender = User, text' = ''old'',
                                          timestamp = ''t0''\<rparr>,
               activeSessionRef := True, textInput := ''hi''\<rparr>))) =
     \<lparr>id' = ''0-u'', sender = User, text' = ''old'', timestamp = ''t0''\<rparr>"
  by (simp add: handleSendText_def initial_def trim_def isWhiteSpace_def Let_def
      hd_append)

text \<open>
  C6 (channel error). The error callback sets the status to \<open>ERROR\<close> and then calls
  \<open>stopConversation\<close>, whose last statement sets it to \<open>DISCONNECTED\<close>: whatever the
  state, the status after the error has been processed is \<open>DISCONNECTED\<close>. The teardown
  itself is done: the handles are released, no source is left and the cursor is 0.
\<close>

theorem onerror_ends_disconnected:
  "status (onerror s) = DISCONNECTED \<and> status (onerror s) \<noteq> ERROR \<and>
   \<not> activeSessionRef (onerror s) \<and> \<not> scriptProcessorRef (onerror s) \<and>
   \<not> micStreamRef (onerror s) \<and> sourcesRef (onerror s) = [] \<and>
   stopped (onerror s) = stopped s @ sourcesRef s \<and>
   nextStartTimeRef (onerror s) = 0 \<and> \<not> isModelSpeaking (onerror s)"
  by (simp add: onerror_def stopConversation_def interrupted_block_def Let_def)

text \<open>
  C10 (typed text is guarded). When the trimmed input is empty or no session handle is
  held, the submission changes nothing at all: no message, nothing sent. Otherwise exactly
  one user message with the trimmed text is appended to the history, the trimmed text is
  sent on the channel, and the text input is cleared.
\<close>

theorem handleSendText_guarded:
  "(trim (textInput s) = [] \<or> \<not> activeSessionRef s \<longrightarrow> handleSendText clk s = s) \<and>
   (trim (textInput s) \<noteq> [] \<and> activeSessionRef s \<longrightarrow>
      messages (handleSendText clk s) =
        messages s @ [\<lparr>id' = dateNow clk @ ''-tu'', sender = User,
                       text' = trim (textInput s), timestamp = isoString clk\<rparr>] \<and>
      sent (handleSendText clk s) = sent s @ [Text (trim (textInput s))] \<and>
      textInput (handleSendText clk s) = [])"
  by (simp add: handleSendText_def Let_def)

theorem handleSendText_guarded_witness:
  "handleSendText \<lparr>dateNow = ''7'', isoString = ''t''\<rparr>
     (initial\<lparr>textInput := ''  '', activeSessionRef := True\<rparr>) =
     initial\<lparr>textInput := ''  '', activeSessionRef := True\<rparr> \<and>
   handleSendText \<lparr>dateNow = ''7'', isoString = ''t''\<rparr> (initial\<lparr>textInput := ''hi''\<rparr>) =
     initial\<lparr>textInput := ''hi''\<rparr> \<and>
   messages (handleSendText \<lparr>dateNow = ''7'', isoString = ''t''\<rparr>
      (initial\<lparr>textInput := '' hi '', activeSessionRef := True\<rparr>)) =
     [\<lparr>id' = ''7-tu'', sender = User, text' = ''hi'', timestamp = ''t''\<rparr>] \<and>
   sent (handleSendText \<lparr>dateNow = ''7'', isoString = ''t''\<rparr>
      (initial\<lparr>textInput := '' hi '', activeSessionRef := True\<rparr>)) = [Text ''hi''] \<and>
   textInput (handleSendText \<lparr>dateNow = ''7'', isoString = ''t''\<rparr>
      (initial\<lparr>textInput := '' hi '', activeSessionRef := True\<rparr>)) = []"
  using
    handleSendText_guarded [of "initial\<lparr>textInput := ''  '', activeSessionRef := True\<rparr>"
      "\<lparr>dateNow = ''7'', isoString = ''t''\<rparr>"]
    handleSendText_guarded [of "initial\<lparr>textInput := ''hi''\<rparr>"
      "\<lparr>dateNow = ''7'', isoString = ''t''\<rparr>"]
    handleSendText_guarded [of "initial\<lparr>textInput := '' hi '', activeSessionRef := True\<rparr>"
      "\<lparr>dateNow = ''7'', isoString = ''t''\<rparr>"]
  by (simp add: initial_def trim_def isWhiteSpace_def)

text \<open>
  C5 (transcription accounting), as the code has it. The two branches are an
  \<open>if ... else if\<close>: an output fragment is always concatenated onto \<open>currentOutput\<close>; an
  input fragment is concatenated onto \<open>currentInput\<close> only when the delivery carries no
  output transcription. Each branch leaves the other accumulator alone. When the same
  delivery also signals turn-complete, both accumulators are empty once it is handled.
\<close>

theorem transcription_appends:
  "currentOutput (transcription sc s) =
     currentOutput s @ (case outputTranscription sc of Some t \<Rightarrow> t | None \<Rightarrow> []) \<and>
   currentInput (transcription sc s) =
     currentInput s @ (case outputTranscription sc of
                         Some t \<Rightarrow> []
                       | None \<Rightarrow> (case inputTranscription sc of Some t \<Rightarrow> t | None \<Rightarrow> [])) \<and>
   currentOutput (onmessage clk now (Some sc) s) =
     (if turnComplete sc then [] else currentOutput (transcription sc s)) \<and>
   currentInput (onmessage clk now (Some sc) s) =
     (if turnComplete sc then [] else currentInput (transcription sc s))"
  by (simp add: onmessage_def transcript_part_def transcription_def turn_complete_def Let_def
      audio_loop_keeps split: option.splits)

theorem transcription_appends_witness:
  "currentInput (onmessage \<lparr>dateNow = ''1'', isoString = ''t''\<rparr> 0
     (Some \<lparr>outputTranscription = None, inputTranscription = Some ''lo'',
            turnComplete = False, modelTurn_parts = None, interrupted = False\<rparr>)
     (initial\<lparr>currentInput := ''hel'', currentOutput := ''hi''\<rparr>)) = ''hello'' \<and>
   currentOutput (onmessage \<lparr>dateNow = ''1'', isoString = ''t''\<rparr> 0
     (Some \<lparr>outputTranscription = None, inputTranscription = Some ''lo'',
            turnComplete = False, modelTurn_parts = None, interrupted = False\<rparr>)
     (initial\<lparr>currentInput := ''hel'', currentOutput := ''hi''\<rparr>)) = ''hi''"
  using transcription_appends [of
      "\<lparr>outputTranscription = None, inputTranscription = Some ''lo'',
        turnComplete = False, modelTurn_parts = None, interrupted = False\<rparr>"
      "initial\<lparr>currentInput := ''hel'', currentOutput := ''hi''\<rparr>"
      "\<lparr>dateNow = ''1'', isoString = ''t''\<rparr>" 0]
  by (simp add: initial_def)

text \<open>
  C5 as the specification states it fails: a delivery that carries both an input fragment
  "hello" and an output fragment "there" appends the output fragment only; the input
  accumulator stays empty.
\<close>

theorem transcription_both_counterexample:
  "currentInput (onmessage \<lparr>dateNow = ''1'', isoString = ''t''\<rparr> 0
     (Some \<lparr>outputTranscription = Some ''there'', inputTranscription = Some ''hello'',
            turnComplete = False, modelTurn_parts = None, interrupted = False\<rparr>) initial) = [] \<and>
   currentInput (onmessage \<lparr>dateNow = ''1'', isoString = ''t''\<rparr> 0
     (Some \<lparr>outputTranscription = Some ''there'', inputTranscription = Some ''hello'',
            turnComplete = False, modelTurn_parts = None, interrupted = False\<rparr>) initial) \<noteq>
     currentInput initial @ ''hello'' \<and>
   currentOutput (onmessage \<lparr>dateNow = ''1'', isoString = ''t''\<rparr> 0
     (Some \<lparr>outputTranscription = Some ''there'', inputTranscription = Some ''hello'',
            turnComplete = False, modelTurn_parts = None, interrupted = False\<rparr>) initial) =
     ''there''"
  by (simp add: onmessage_def transcript_part_def parts_of_def transcription_def initial_def)

text \<open>
  C8 (capture gate). Starting from any state whose refs agree with their state cells (as
  they do initially), and for every run of events, the frames sent on the channel are
  exactly those the specification's gate lets through when it judges each frame with the
  talk mode and the button state in force at the moment the frame is produced: all frames
  in Continuous mode, and in push-to-talk mode the frames produced while pressed. A toggle
  changes the decision for later frames only.
\<close>

theorem capture_gate_latest:
  "talkModeRef s = talkMode s \<Longrightarrow> isPTTPressedRef s = isPTTPressed s \<Longrightarrow>
   media (sent (exec evs s)) =
     media (sent s) @ expected_frames (talkMode s) (isPTTPressed s) evs"
proof (induction evs arbitrary: s)
  case Nil
  then show ?case by simp
next
  case (Cons e es)
  have sy: "synced s"
    using Cons.prems by (simp add: synced_def)
  have "synced (step e s)"
    using step_gate [OF sy] by blast
  then have "media (sent (exec es (step e s))) =
      media (sent (step e s)) @
      expected_frames (talkMode (step e s)) (isPTTPressed (step e s)) es"
    using Cons.IH by (simp add: synced_def)
  then show ?case
    using step_gate [OF sy, of e es] by simp
qed

theorem capture_gate_latest_witness:
  "media (sent (exec [Open, AudioProcess [1], SetTalkMode PTT, AudioProcess [2], PTTDown,
       AudioProcess [3], PTTUp, AudioProcess [4], SetTalkMode CONTINUOUS, AudioProcess [5]]
     initial)) = [[1], [3], [5]]"
  using capture_gate_latest [of initial
      "[Open, AudioProcess [1], SetTalkMode PTT, AudioProcess [2], PTTDown,
        AudioProcess [3], PTTUp, AudioProcess [4], SetTalkMode CONTINUOUS, AudioProcess [5]]"]
  by (simp add: initial_def shouldTransmit_def)






text \<open>
  The interruption block is not reached at all when a decode of the interrupted delivery
  itself fails: the handler ends at the rejection, the two sources that were playing stay in
  the set, nothing is stopped and the cursor keeps its value.
\<close>

lemma interruption_lost_on_decode_failure:
  "sourcesRef (exec
       [Deliver \<lparr>dateNow = ''1'', isoString = ''t''\<rparr> 9
          (Some \<lparr>outputTranscription = None, inputTranscription = None,
             turnComplete = False,
             modelTurn_parts = Some [Some ''AA==''], interrupted = True\<rparr>),
        DecodeDone 0 (Inl DecodeError) 10]
     (initial\<lparr>sourcesRef := [0, 1], nextStartTimeRef := 9, isModelSpeaking := True,
        started := [\<lparr>arrival = (0, 0), payload = ''AAAA'', startAt = 7, duration = 1\<rparr>,
                    \<lparr>arrival = (0, 1), payload = ''AABB'', startAt = 8, duration = 1\<rparr>],
        deliveries := 1\<rparr>)) = [0, 1] \<and>
   stopped (exec
       [Deliver \<lparr>dateNow = ''1'', isoString = ''t''\<rparr> 9
          (Some \<lparr>outputTranscription = None, inputTranscription = None,
             turnComplete = False,
             modelTurn_parts = Some [Some ''AA==''], interrupted = True\<rparr>),
        DecodeDone 0 (Inl DecodeError) 10]
     (initial\<lparr>sourcesRef := [0, 1], nextStartTimeRef := 9, isModelSpeaking := True,
        started := [\<lparr>arrival = (0, 0), payload = ''AAAA'', startAt = 7, duration = 1\<rparr>,
                    \<lparr>arrival = (0, 1), payload = ''AABB'', startAt = 8, duration = 1\<rparr>],
        deliveries := 1\<rparr>)) = [] \<and>
   nextStartTimeRef (exec
       [Deliver \<lparr>dateNow = ''1'', isoString = ''t''\<rparr> 9
          (Some \<lparr>outputTranscription = None, inputTranscription = None,
             turnComplete = False,
             modelTurn_parts = Some [Some ''AA==''], interrupted = True\<rparr>),
        DecodeDone 0 (Inl DecodeError) 10]
     (initial\<lparr>sourcesRef := [0, 1], nextStartTimeRef := 9, isModelSpeaking := True,
        started := [\<lparr>arrival = (0, 0), payload = ''AAAA'', startAt = 7, duration = 1\<rparr>,
                    \<lparr>arrival = (0, 1), payload = ''AABB'', startAt = 8, duration = 1\<rparr>],
        deliveries := 1\<rparr>)) = 9"
  by (simp add: initial_def onmessage_def transcript_part_def parts_of_def transcription_def
      schedule_begin_def schedule_finish_def decode_done_def interrupted_block_def Let_def)

text \<open>
  C1 (order of the start calls), as the code has it. In every run of events from the
  initial state, and whatever the order in which decodes complete:
  \<^item> a delivery never has two decodes in flight;
  \<^item> two start calls for chunks of the same delivery are made in the order of the parts in
    that delivery (the earlier call is for the part with the smaller index);
  \<^item> every start call plays the inline data of the part its label names, in the delivery
    its label names, as the delivery carried it; the same holds for the chunk a suspended
    handler awaits;
  \<^item> the chunks started for a delivery are the first audio chunks that delivery carried, in
    their order and with none left out;
  \<^item> when a decode completes, its chunk is started at once, at the end of the log, whatever
    other deliveries are waiting; and no other event adds a start call. So across
    deliveries the start calls are made in the order in which the decodes complete.
\<close>

theorem scheduled_in_order_within_delivery:
  "distinct (map origin (pending (exec evs initial))) \<and>
   (i < j \<and> j < length (started (exec evs initial)) \<and>
    fst (arrival (started (exec evs initial) ! i)) =
      fst (arrival (started (exec evs initial) ! j)) \<longrightarrow>
      snd (arrival (started (exec evs initial) ! i)) <
        snd (arrival (started (exec evs initial) ! j))) \<and>
   (p \<in> set (started (exec evs initial)) \<longrightarrow>
      carried_at (delivered evs) (arrival p) (payload p)) \<and>
   (k < length (pending (exec evs initial)) \<longrightarrow>
      carried_at (delivered evs)
        (origin (pending (exec evs initial) ! k), position (pending (exec evs initial) ! k))
        (awaiting (pending (exec evs initial) ! k)) \<and>
      started (decode_done k (Inr d) now (exec evs initial)) =
        started (exec evs initial) @
        [\<lparr>arrival = (origin (pending (exec evs initial) ! k),
                      position (pending (exec evs initial) ! k)),
          payload = awaiting (pending (exec evs initial) ! k),
          startAt = nextStartTimeRef (exec evs initial), duration = d\<rparr>]) \<and>
   (\<not> completes e (exec evs initial) \<longrightarrow>
      started (step e (exec evs initial)) = started (exec evs initial)) \<and>
   (n < length (delivered evs) \<longrightarrow>
      take (length (started_of n (exec evs initial))) (audio_chunks (delivered evs ! n)) =
        map payload (started_of n (exec evs initial)))"
proof -
  define s where "s = exec evs initial"
  have w: "wf s"
    unfolding s_def by (rule wf_exec [OF wf_initial])
  have "tied ([] @ delivered evs) (exec evs initial)"
    by (rule tied_exec [OF tied_initial])
  then have t: "tied (delivered evs) s"
    by (simp add: s_def)
  have a: "distinct (map origin (pending s))"
    using w by (simp add: wf_def wf3_def)
  have "sorted_wrt within_delivery (map arrival (started s))"
    using w by (simp add: wf_def wf3_def in_order_within_deliveries_def)
  then have b: "snd (arrival (started s ! i)) < snd (arrival (started s ! j))"
    if "i < j" "j < length (started s)"
      "fst (arrival (started s ! i)) = fst (arrival (started s ! j))"
    using that by (simp add: sorted_wrt_iff_nth_less within_delivery_def)
  have c: "carried_at (delivered evs) (arrival p) (payload p)" if "p \<in> set (started s)"
    using t that by (simp add: tied_def)
  have d1: "carried_at (delivered evs) (origin (pending s ! k), position (pending s ! k))
      (awaiting (pending s ! k))" if "k < length (pending s)"
    using t that by (simp add: tied_def)
  have d2: "started (decode_done k (Inr d) now s) = started s @
      [\<lparr>arrival = (origin (pending s ! k), position (pending s ! k)),
        payload = awaiting (pending s ! k), startAt = nextStartTimeRef s, duration = d\<rparr>]"
    if "k < length (pending s)"
    using that by (rule decode_done_starts_awaited)
  have e: "started (step e s) = started s" if "\<not> completes e s"
    using that by (rule only_completions_start)
  have f: "take (length (started_of n s)) (audio_chunks (delivered evs ! n)) =
      map payload (started_of n s)" if "n < length (delivered evs)"
    unfolding s_def using that by (rule played_prefix)
  have "distinct (map origin (pending s)) \<and>
      (i < j \<and> j < length (started s) \<and>
       fst (arrival (started s ! i)) = fst (arrival (started s ! j)) \<longrightarrow>
         snd (arrival (started s ! i)) < snd (arrival (started s ! j))) \<and>
      (p \<in> set (started s) \<longrightarrow> carried_at (delivered evs) (arrival p) (payload p)) \<and>
      (k < length (pending s) \<longrightarrow>
         carried_at (delivered evs) (origin (pending s ! k), position (pending s ! k))
           (awaiting (pending s ! k)) \<and>
         started (decode_done k (Inr d) now s) = started s @
           [\<lparr>arrival = (origin (pending s ! k), position (pending s ! k)),
             payload = awaiting (pending s ! k), startAt = nextStartTimeRef s,
             duration = d\<rparr>]) \<and>
      (\<not> completes e s \<longrightarrow> started (step e s) = started s) \<and>
      (n < length (delivered evs) \<longrightarrow>
         take (length (started_of n s)) (audio_chunks (delivered evs ! n)) =
           map payload (started_of n s))"
    using a b c d1 d2 e f by (intro conjI impI) auto
  then show ?thesis
    unfolding s_def .
qed

theorem scheduled_in_order_within_delivery_witness:
  "delivered
       [Deliver \<lparr>dateNow = ''1'', isoString = ''t''\<rparr> 0
          (Some \<lparr>outputTranscription = None, inputTranscription = None,
             turnComplete = False,
             modelTurn_parts = Some [Some ''AAAA'', Some ''AABB''], interrupted = False\<rparr>),
        Deliver \<lparr>dateNow = ''1'', isoString = ''t''\<rparr> 0
          (Some \<lparr>outputTranscription = None, inputTranscription = None,
             turnComplete = False,
             modelTurn_parts = Some [Some ''BBBB'', Some ''BBCC''], interrupted = False\<rparr>),
        DecodeDone 1 (Inr 1) 1, DecodeDone 0 (Inr 1) 2, DecodeDone 1 (Inr 1) 3] =
     [[Some ''AAAA'', Some ''AABB''], [Some ''BBBB'', Some ''BBCC'']] \<and>
   map payload (started (exec
       [Deliver \<lparr>dateNow = ''1'', isoString = ''t''\<rparr> 0
          (Some \<lparr>outputTranscription = None, inputTranscription = None,
             turnComplete = False,
             modelTurn_parts = Some [Some ''AAAA'', Some ''AABB''], interrupted = False\<rparr>),
        Deliver \<lparr>dateNow = ''1'', isoString = ''t''\<rparr> 0
          (Some \<lparr>outputTranscription = None, inputTranscription = None,
             turnComplete = False,
             modelTurn_parts = Some [Some ''BBBB'', Some ''BBCC''], interrupted = False\<rparr>),
        DecodeDone 1 (Inr 1) 1, DecodeDone 0 (Inr 1) 2, DecodeDone 1 (Inr 1) 3]
     initial)) = [''BBBB'', ''AAAA'', ''AABB''] \<and>
   map arrival (started (exec
       [Deliver \<lparr>dateNow = ''1'', isoString = ''t''\<rparr> 0
          (Some \<lparr>outputTranscription = None, inputTranscription = None,
             turnComplete = False,
             modelTurn_parts = Some [Some ''AAAA'', Some ''AABB''], interrupted = False\<rparr>),
        Deliver \<lparr>dateNow = ''1'', isoString = ''t''\<rparr> 0
          (Some \<lparr>outputTranscription = None, inputTranscription = None,
             turnComplete = False,
             modelTurn_parts = Some [Some ''BBBB'', Some ''BBCC''], interrupted = False\<rparr>),
        DecodeDone 1 (Inr 1) 1, DecodeDone 0 (Inr 1) 2, DecodeDone 1 (Inr 1) 3]
     initial)) = [(1, 0), (0, 0), (0, 1)] \<and>
   map payload (started_of 0 (exec
       [Deliver \<lparr>dateNow = ''1'', isoString = ''t''\<rparr> 0
          (Some \<lparr>outputTranscription = None, inputTranscription = None,
             turnComplete = False,
             modelTurn_parts = Some [Some ''AAAA'', Some ''AABB''], interrupted = False\<rparr>),
        Deliver \<lparr>dateNow = ''1'', isoString = ''t''\<rparr> 0
          (Some \<lparr>outputTranscription = None, inputTranscription = None,
             turnComplete = False,
             modelTurn_parts = Some [Some ''BBBB'', Some ''BBCC''], interrupted = False\<rparr>),
        DecodeDone 1 (Inr 1) 1, DecodeDone 0 (Inr 1) 2, DecodeDone 1 (Inr 1) 3]
     initial)) = [''AAAA'', ''AABB''] \<and>
   map payload (started_of 1 (exec
       [Deliver \<lparr>dateNow = ''1'', isoString = ''t''\<rparr> 0
          (Some \<lparr>outputTranscription = None, inputTranscription = None,
             turnComplete = False,
             modelTurn_parts = Some [Some ''AAAA'', Some ''AABB''], interrupted = False\<rparr>),
        Deliver \<lparr>dateNow = ''1'', isoString = ''t''\<rparr> 0
          (Some \<lparr>outputTranscription = None, inputTranscription = None,
             turnComplete = False,
             modelTurn_parts = Some [Some ''BBBB'', Some ''BBCC''], interrupted = False\<rparr>),
        DecodeDone 1 (Inr 1) 1, DecodeDone 0 (Inr 1) 2, DecodeDone 1 (Inr 1) 3]
     initial)) = [''BBBB''] \<and>
   map awaiting (pending (exec
       [Deliver \<lparr>dateNow = ''1'', isoString = ''t''\<rparr> 0
          (Some \<lparr>outputTranscription = None, inputTranscription = None,
             turnComplete = False,
             modelTurn_parts = Some [Some ''AAAA'', Some ''AABB''], interrupted = False\<rparr>),
        Deliver \<lparr>dateNow = ''1'', isoString = ''t''\<rparr> 0
          (Some \<lparr>outputTranscription = None, inputTranscription = None,
             turnComplete = False,
             modelTurn_parts = Some [Some ''BBBB'', Some ''BBCC''], interrupted = False\<rparr>),
        DecodeDone 1 (Inr 1) 1, DecodeDone 0 (Inr 1) 2, DecodeDone 1 (Inr 1) 3]
     initial)) = [''BBCC''] \<and>
   map payload (started (decode_done 0 (Inr 1) 4 (exec
       [Deliver \<lparr>dateNow = ''1'', isoString = ''t''\<rparr> 0
          (Some \<lparr>outputTranscription = None, inputTranscription = None,
             turnComplete = False,
             modelTurn_parts = Some [Some ''AAAA'', Some ''AABB''], interrupted = False\<rparr>),
        Deliver \<lparr>dateNow = ''1'', isoString = ''t''\<rparr> 0
          (Some \<lparr>outputTranscription = None, inputTranscription = None,
             turnComplete = False,
             modelTurn_parts = Some [Some ''BBBB'', Some ''BBCC''], interrupted = False\<rparr>),
        DecodeDone 1 (Inr 1) 1, DecodeDone 0 (Inr 1) 2, DecodeDone 1 (Inr 1) 3]
     initial))) = [''BBBB'', ''AAAA'', ''AABB'', ''BBCC''] \<and>
   started (step PTTDown (exec
       [Deliver \<lparr>dateNow = ''1'', isoString = ''t''\<rparr> 0
          (Some \<lparr>outputTranscription = None, inputTranscription = None,
             turnComplete = False,
             modelTurn_parts = Some [Some ''AAAA'', Some ''AABB''], interrupted = False\<rparr>),
        Deliver \<lparr>dateNow = ''1'', isoString = ''t''\<rparr> 0
          (Some \<lparr>outputTranscription = None, inputTranscription = None,
             turnComplete = False,
             modelTurn_parts = Some [Some ''BBBB'', Some ''BBCC''], interrupted = False\<rparr>),
        DecodeDone 1 (Inr 1) 1, DecodeDone 0 (Inr 1) 2, DecodeDone 1 (Inr 1) 3]
     initial)) = started (exec
       [Deliver \<lparr>dateNow = ''1'', isoString = ''t''\<rparr> 0
          (Some \<lparr>outputTranscription = None, inputTranscription = None,
             turnComplete = False,
             modelTurn_parts = Some [Some ''AAAA'', Some ''AABB''], interrupted = False\<rparr>),
        Deliver \<lparr>dateNow = ''1'', isoString = ''t''\<rparr> 0
          (Some \<lparr>outputTranscription = None, inputTranscription = None,
             turnComplete = False,
             modelTurn_parts = Some [Some ''BBBB'', Some ''BBCC''], interrupted = False\<rparr>),
        DecodeDone 1 (Inr 1) 1, DecodeDone 0 (Inr 1) 2, DecodeDone 1 (Inr 1) 3]
     initial)"
  using scheduled_in_order_within_delivery [where
      evs = "[Deliver \<lparr>dateNow = ''1'', isoString = ''t''\<rparr> 0
          (Some \<lparr>outputTranscription = None, inputTranscription = None,
             turnComplete = False,
             modelTurn_parts = Some [Some ''AAAA'', Some ''AABB''], interrupted = False\<rparr>),
        Deliver \<lparr>dateNow = ''1'', isoString = ''t''\<rparr> 0
          (Some \<lparr>outputTranscription = None, inputTranscription = None,
             turnComplete = False,
             modelTurn_parts = Some [Some ''BBBB'', Some ''BBCC''], interrupted = False\<rparr>),
        DecodeDone 1 (Inr 1) 1, DecodeDone 0 (Inr 1) 2, DecodeDone 1 (Inr 1) 3]" and
      i = 1 and j = 2 and k = 0 and d = 1 and now = 4 and e = PTTDown and n = 0 and
      p = "\<lparr>arrival = (0, 1), payload = ''AABB'', startAt = 2, duration = 1\<rparr>"]
  by (simp add: initial_def onmessage_def transcript_part_def parts_of_def transcription_def
      schedule_begin_def schedule_finish_def decode_done_def interrupted_block_def Let_def
      carried_def carried_at_def handlePTTDown_def sync_refs_def started_of_def)

text \<open>
  C1 as the specification states it fails across deliveries. Chunk A arrives in one
  delivery and chunk B in the next; both handlers are suspended in their decode, and the
  decode of B completes first. Then B is started before A.
\<close>

theorem arrival_order_counterexample:
  "map payload (started (exec
       [Deliver \<lparr>dateNow = ''1'', isoString = ''t''\<rparr> 0
          (Some \<lparr>outputTranscription = None, inputTranscription = None,
             turnComplete = False,
             modelTurn_parts = Some [Some ''AAAA''], interrupted = False\<rparr>),
        Deliver \<lparr>dateNow = ''1'', isoString = ''t''\<rparr> 0
          (Some \<lparr>outputTranscription = None, inputTranscription = None,
             turnComplete = False,
             modelTurn_parts = Some [Some ''BBBB''], interrupted = False\<rparr>),
        DecodeDone 1 (Inr 1) 1, DecodeDone 0 (Inr 1) 2]
     initial)) = [''BBBB'', ''AAAA''] \<and>
   \<not> in_arrival_order (started (exec
       [Deliver \<lparr>dateNow = ''1'', isoString = ''t''\<rparr> 0
          (Some \<lparr>outputTranscription = None, inputTranscription = None,
             turnComplete = False,
             modelTurn_parts = Some [Some ''AAAA''], interrupted = False\<rparr>),
        Deliver \<lparr>dateNow = ''1'', isoString = ''t''\<rparr> 0
          (Some \<lparr>outputTranscription = None, inputTranscription = None,
             turnComplete = False,
             modelTurn_parts = Some [Some ''BBBB''], interrupted = False\<rparr>),
        DecodeDone 1 (Inr 1) 1, DecodeDone 0 (Inr 1) 2]
     initial))"
  by (simp add: initial_def onmessage_def transcript_part_def parts_of_def transcription_def
      schedule_begin_def schedule_finish_def decode_done_def Let_def
      in_arrival_order_def arrives_before_def)

text \<open>
  C7 (decode failure), as the code has it. Nothing catches a rejected decode, so the
  handler of that delivery ends there. In every reachable state, when the decode awaited by
  the \<open>k\<close>-th suspended handler fails: the only change is that this handler is gone, so the
  status, the history, the cursor, the active sources and the other suspended handlers are
  as before; and in every continuation no further chunk of the failed handler's delivery is
  ever started.
\<close>

theorem decode_failure_drops_rest_of_delivery:
  assumes "k < length (pending (exec pre initial))"
  shows "decode_done k (Inl e) now (exec pre initial) =
           (exec pre initial)\<lparr>pending := take k (pending (exec pre initial)) @
                                            drop (Suc k) (pending (exec pre initial))\<rparr> \<and>
         status (decode_done k (Inl e) now (exec pre initial)) = status (exec pre initial) \<and>
         started_of (origin (pending (exec pre initial) ! k))
           (exec evs (decode_done k (Inl e) now (exec pre initial))) =
         started_of (origin (pending (exec pre initial) ! k)) (exec pre initial)"
proof -
  define s where "s = exec pre initial"
  have w: "wf s" unfolding s_def by (rule wf_exec [OF wf_initial])
  have k: "k < length (pending s)" using assms by (simp add: s_def)
  define s' where "s' = decode_done k (Inl e) now s"
  have s': "s' = s\<lparr>pending := take k (pending s) @ drop (Suc k) (pending s)\<rparr>"
    unfolding s'_def by (rule decode_done_fail [OF k])
  have d: "origin (pending s ! k) < deliveries s'"
      "origin (pending s ! k) \<notin> origin ` set (pending s')"
    using wf_failed_is_dead [OF w k] by (simp_all add: s')
  have "started_of (origin (pending s ! k)) (exec evs s') = started_of (origin (pending s ! k)) s'"
    by (rule dead_exec [OF d])
  moreover have "started_of (origin (pending s ! k)) s' = started_of (origin (pending s ! k)) s"
    by (simp add: s' started_of_def)
  ultimately have "s' = s\<lparr>pending := take k (pending s) @ drop (Suc k) (pending s)\<rparr> \<and>
      status s' = status s \<and>
      started_of (origin (pending s ! k)) (exec evs s') = started_of (origin (pending s ! k)) s"
    using s' by simp
  then show ?thesis unfolding s'_def s_def .
qed

theorem decode_failure_drops_rest_of_delivery_witness:
  "started_of 0 (exec
       [Deliver \<lparr>dateNow = ''1'', isoString = ''t''\<rparr> 2 (Some \<lparr>outputTranscription = None, inputTranscription = None, turnComplete = False,
             modelTurn_parts = Some [Some ''CCCC''], interrupted = False\<rparr>),
        DecodeDone 0 (Inr 1) 3]
       (decode_done 0 (Inl DecodeError) 1 (exec
          [Deliver \<lparr>dateNow = ''1'', isoString = ''t''\<rparr> 0
          (Some \<lparr>outputTranscription = None, inputTranscription = None,
             turnComplete = False,
             modelTurn_parts = Some [Some ''AA=='', Some ''BBBB''], interrupted = False\<rparr>)]
        initial))) = [] \<and>
   map payload (started (exec
       [Deliver \<lparr>dateNow = ''1'', isoString = ''t''\<rparr> 2 (Some \<lparr>outputTranscription = None, inputTranscription = None, turnComplete = False,
             modelTurn_parts = Some [Some ''CCCC''], interrupted = False\<rparr>),
        DecodeDone 0 (Inr 1) 3]
       (decode_done 0 (Inl DecodeError) 1 (exec
          [Deliver \<lparr>dateNow = ''1'', isoString = ''t''\<rparr> 0
          (Some \<lparr>outputTranscription = None, inputTranscription = None,
             turnComplete = False,
             modelTurn_parts = Some [Some ''AA=='', Some ''BBBB''], interrupted = False\<rparr>)]
        initial)))) = [''CCCC'']"
  using decode_failure_drops_rest_of_delivery [where k = 0 and e = DecodeError and now = 1 and
      pre = "[Deliver \<lparr>dateNow = ''1'', isoString = ''t''\<rparr> 0
          (Some \<lparr>outputTranscription = None, inputTranscription = None,
             turnComplete = False,
             modelTurn_parts = Some [Some ''AA=='', Some ''BBBB''], interrupted = False\<rparr>)]" and
      evs = "[Deliver \<lparr>dateNow = ''1'', isoString = ''t''\<rparr> 2 (Some \<lparr>outputTranscription = None, inputTranscription = None, turnComplete = False,
             modelTurn_parts = Some [Some ''CCCC''], interrupted = False\<rparr>),
        DecodeDone 0 (Inr 1) 3]"]
  by (simp add: initial_def onmessage_def transcript_part_def parts_of_def transcription_def
      schedule_begin_def schedule_finish_def decode_done_def Let_def
      started_of_def)

text \<open>
  C7 as the specification states it fails for the chunks that follow the bad one in the
  same delivery. A delivery carries a malformed chunk and then a good one; the decode of
  the first fails. Afterwards no handler is suspended and nothing was started: the good
  chunk is dropped as well.
\<close>

theorem decode_failure_counterexample:
  "pending (exec
       [Deliver \<lparr>dateNow = ''1'', isoString = ''t''\<rparr> 0
          (Some \<lparr>outputTranscription = None, inputTranscription = None,
             turnComplete = False,
             modelTurn_parts = Some [Some ''AA=='', Some ''BBBB''], interrupted = False\<rparr>),
        DecodeDone 0 (Inl DecodeError) 1]
     initial) = [] \<and>
   started (exec
       [Deliver \<lparr>dateNow = ''1'', isoString = ''t''\<rparr> 0
          (Some \<lparr>outputTranscription = None, inputTranscription = None,
             turnComplete = False,
             modelTurn_parts = Some [Some ''AA=='', Some ''BBBB''], interrupted = False\<rparr>),
        DecodeDone 0 (Inl DecodeError) 1]
     initial) = [] \<and>
   sourcesRef (exec
       [Deliver \<lparr>dateNow = ''1'', isoString = ''t''\<rparr> 0
          (Some \<lparr>outputTranscription = None, inputTranscription = None,
             turnComplete = False,
             modelTurn_parts = Some [Some ''AA=='', Some ''BBBB''], interrupted = False\<rparr>),
        DecodeDone 0 (Inl DecodeError) 1]
     initial) = []"
  by (simp add: initial_def onmessage_def transcript_part_def parts_of_def transcription_def
      schedule_begin_def schedule_finish_def decode_done_def Let_def)

end
